theory Spec2Isabelle
  imports Complex_Main "HOL-Library.Sublist" "HOL-Library.Multiset"
begin

section \<open>JavaScript numbers\<close>

text \<open>
  The \<open>number\<close> fields of the records are IEEE 754 doubles. A double is NaN, one of
  the two infinities, the negative zero, or a finite value \<open>Fin a\<close>, where \<open>Fin 0\<close>
  is the positive zero. The results of \<open>+\<close>, \<open>-\<close>, \<open>*\<close> and \<open>/\<close> are the exact
  results rounded to the nearest double, ties to the even significand, with overflow
  to an infinity and underflow to a signed zero.
\<close>

datatype jsnum = Fin rat | NZero | PInf | NInf | NaN

text \<open>\<open>pow2 e\<close> is \<open>2\<close> to the power \<open>e\<close>, for an exponent of either sign.\<close>

definition pow2 :: "int \<Rightarrow> rat" where
  "pow2 e = (if 0 \<le> e then 2 ^ nat e else 1 / 2 ^ nat (- e))"

text \<open>
  The exponent \<open>e\<close> with \<open>pow2 e \<le> m < pow2 (e + 1)\<close>, found by bisection between
  \<open>lo\<close> and \<open>hi\<close>.
\<close>

function find_exp :: "int \<Rightarrow> int \<Rightarrow> rat \<Rightarrow> int" where
  "find_exp lo hi m =
    (if hi - lo \<le> 1 then lo
     else if pow2 ((lo + hi) div 2) \<le> m then find_exp ((lo + hi) div 2) hi m
     else find_exp lo ((lo + hi) div 2) m)"
  by pat_completeness auto
termination
  by (relation "measure (\<lambda>(lo, hi, m). nat (hi - lo))") auto

declare find_exp.simps [simp del]

text \<open>
  The exponent of the binade of a magnitude: that of a normal double between
  \<open>-1022\<close> and \<open>1023\<close>; subnormal magnitudes share the exponent \<open>-1022\<close>.
\<close>

definition binade :: "rat \<Rightarrow> int" where
  "binade m =
    (if m < pow2 (- 1022) then - 1022
     else if pow2 1024 \<le> m then 1023
     else find_exp (- 1022) 1024 m)"

definition round_half_even :: "rat \<Rightarrow> int" where
  "round_half_even r =
    (let f = \<lfloor>r\<rfloor>; d = r - of_int f
     in if d < 1 / 2 then f else if 1 / 2 < d then f + 1 else if even f then f else f + 1)"

text \<open>
  Rounding to the nearest double: the significand has 53 bits, so the magnitude is
  rounded to a multiple of \<open>pow2 (e - 52)\<close> for the exponent \<open>e\<close> of its binade; a
  result of \<open>pow2 1024\<close> or more is an infinity, a result \<open>0\<close> keeps the sign.
\<close>

definition round_double :: "rat \<Rightarrow> jsnum" where
  "round_double x =
    (let q = pow2 (binade \<bar>x\<bar> - 52);
         r = of_int (round_half_even (\<bar>x\<bar> / q)) * q
     in if pow2 1024 \<le> r then (if x < 0 then NInf else PInf)
        else if r = 0 then (if x < 0 then NZero else Fin 0)
        else Fin (if x < 0 then - r else r))"

text \<open>The sign bit, the zeros, the infinities and the value of a finite number.\<close>

fun negative :: "jsnum \<Rightarrow> bool" where
  "negative (Fin a) = (a < 0)"
| "negative NZero = True"
| "negative PInf = False"
| "negative NInf = True"
| "negative NaN = False"

definition is_zero :: "jsnum \<Rightarrow> bool" where
  "is_zero x = (x = Fin 0 \<or> x = NZero)"

definition is_inf :: "jsnum \<Rightarrow> bool" where
  "is_inf x = (x = PInf \<or> x = NInf)"

definition signed_zero :: "bool \<Rightarrow> jsnum" where
  "signed_zero neg = (if neg then NZero else Fin 0)"

definition signed_inf :: "bool \<Rightarrow> jsnum" where
  "signed_inf neg = (if neg then NInf else PInf)"

fun fin_val :: "jsnum \<Rightarrow> rat" where
  "fin_val (Fin a) = a"
| "fin_val x = 0"

text \<open>
  Addition: NaN is absorbing, opposite infinities give NaN, the sum of two negative
  zeros is the negative zero, and an exact sum \<open>0\<close> of finite values is the positive
  zero.
\<close>

fun js_add :: "jsnum \<Rightarrow> jsnum \<Rightarrow> jsnum" where
  "js_add NaN y = NaN"
| "js_add x NaN = NaN"
| "js_add PInf NInf = NaN"
| "js_add NInf PInf = NaN"
| "js_add PInf y = PInf"
| "js_add x PInf = PInf"
| "js_add NInf y = NInf"
| "js_add x NInf = NInf"
| "js_add NZero y = y"
| "js_add x NZero = x"
| "js_add (Fin a) (Fin b) = (if a + b = 0 then Fin 0 else round_double (a + b))"

fun js_neg :: "jsnum \<Rightarrow> jsnum" where
  "js_neg (Fin a) = (if a = 0 then NZero else Fin (- a))"
| "js_neg NZero = Fin 0"
| "js_neg PInf = NInf"
| "js_neg NInf = PInf"
| "js_neg NaN = NaN"

definition js_sub :: "jsnum \<Rightarrow> jsnum \<Rightarrow> jsnum" where
  "js_sub x y = js_add x (js_neg y)"

text \<open>
  Multiplication: an infinity times a zero is NaN; otherwise the sign of the result
  is the exclusive or of the signs.
\<close>

fun js_mul :: "jsnum \<Rightarrow> jsnum \<Rightarrow> jsnum" where
  "js_mul NaN y = NaN"
| "js_mul x NaN = NaN"
| "js_mul (Fin a) (Fin b) =
     (if a * b = 0 then signed_zero ((a < 0) \<noteq> (b < 0)) else round_double (a * b))"
| "js_mul x y =
     (if (is_inf x \<and> is_zero y) \<or> (is_zero x \<and> is_inf y) then NaN
      else if is_inf x \<or> is_inf y then signed_inf (negative x \<noteq> negative y)
      else signed_zero (negative x \<noteq> negative y))"

text \<open>
  Division: \<open>0 / 0\<close> and \<open>\<infinity> / \<infinity>\<close> are NaN; a value that is not zero divided by
  a zero, and an infinity divided by a finite value, are infinities; a finite value
  divided by an infinity, and a zero divided by a value that is not zero, are zeros;
  the sign is the exclusive or of the signs.
\<close>

fun js_div :: "jsnum \<Rightarrow> jsnum \<Rightarrow> jsnum" where
  "js_div NaN y = NaN"
| "js_div x NaN = NaN"
| "js_div (Fin a) (Fin b) =
     (if b = 0 then (if a = 0 then NaN else signed_inf (a < 0))
      else if a = 0 then signed_zero (b < 0)
      else round_double (a / b))"
| "js_div x y =
     (if (is_inf x \<and> is_inf y) \<or> (is_zero x \<and> is_zero y) then NaN
      else if is_inf x \<or> is_zero y then signed_inf (negative x \<noteq> negative y)
      else signed_zero (negative x \<noteq> negative y))"

text \<open>\<open>x > y\<close>: false when one side is NaN; the two zeros are equal.\<close>

fun js_gt :: "jsnum \<Rightarrow> jsnum \<Rightarrow> bool" where
  "js_gt NaN y = False"
| "js_gt x NaN = False"
| "js_gt PInf PInf = False"
| "js_gt PInf y = True"
| "js_gt x PInf = False"
| "js_gt NInf y = False"
| "js_gt x NInf = True"
| "js_gt x y = (fin_val y < fin_val x)"

text \<open>\<open>Math.min\<close>: NaN when one argument is; the negative zero is below the positive.\<close>

fun Math_min :: "jsnum \<Rightarrow> jsnum \<Rightarrow> jsnum" where
  "Math_min NaN y = NaN"
| "Math_min x NaN = NaN"
| "Math_min x y =
     (if js_gt x y then y else if js_gt y x then x else if x = NZero then x else y)"

text \<open>\<open>!x\<close> on a number: the zeros and NaN are falsy.\<close>

fun falsy_num :: "jsnum \<Rightarrow> bool" where
  "falsy_num (Fin a) = (a = 0)"
| "falsy_num NZero = True"
| "falsy_num NaN = True"
| "falsy_num x = False"

definition is_finite :: "jsnum \<Rightarrow> bool" where
  "is_finite x = (case x of Fin a \<Rightarrow> True | NZero \<Rightarrow> True | _ \<Rightarrow> False)"

text \<open>A finite number whose value is an integer.\<close>

definition is_integer :: "jsnum \<Rightarrow> bool" where
  "is_integer x = (case x of Fin a \<Rightarrow> of_int \<lfloor>a\<rfloor> = a | _ \<Rightarrow> False)"

section \<open>Data model (types.ts)\<close>

datatype TransactionType = Income | Expense

record Transaction =
  t_id :: string
  t_date :: string
  t_amount :: jsnum
  t_category :: string
  t_description :: string
  t_type :: TransactionType

record Category =
  c_id :: string
  c_name :: string
  c_icon :: string
  c_color :: string
  c_type :: TransactionType

record Budget =
  bg_id :: string
  bg_category :: string
  bg_limit :: jsnum

record Bill =
  b_id :: string
  b_name :: string
  b_amount :: jsnum
  b_dueDate :: string
  b_category :: string
  b_isPaid :: bool

datatype InvestmentCategory = Stock | Crypto | RealEstate | Other

record Investment =
  i_id :: string
  i_assetName :: string
  i_symbol :: string
  i_quantity :: jsnum
  i_purchasePrice :: jsnum
  i_currentPrice :: jsnum
  i_purchaseDate :: string
  i_category :: InvestmentCategory

definition DEFAULT_CATEGORIES :: "Category list" where
  "DEFAULT_CATEGORIES =
    [\<lparr>c_id = ''1'', c_name = ''Food & Dining'', c_icon = ''Utensils'', c_color = ''#EF4444'', c_type = Expense\<rparr>,
     \<lparr>c_id = ''2'', c_name = ''Shopping'', c_icon = ''ShoppingBag'', c_color = ''#F59E0B'', c_type = Expense\<rparr>,
     \<lparr>c_id = ''3'', c_name = ''Transportation'', c_icon = ''Car'', c_color = ''#10B981'', c_type = Expense\<rparr>,
     \<lparr>c_id = ''4'', c_name = ''Entertainment'', c_icon = ''Film'', c_color = ''#8B5CF6'', c_type = Expense\<rparr>,
     \<lparr>c_id = ''5'', c_name = ''Health'', c_icon = ''HeartPulse'', c_color = ''#EC4899'', c_type = Expense\<rparr>,
     \<lparr>c_id = ''6'', c_name = ''Utilities'', c_icon = ''Zap'', c_color = ''#3B82F6'', c_type = Expense\<rparr>,
     \<lparr>c_id = ''7'', c_name = ''Salary'', c_icon = ''Wallet'', c_color = ''#10B981'', c_type = Income\<rparr>,
     \<lparr>c_id = ''8'', c_name = ''Investment'', c_icon = ''TrendingUp'', c_color = ''#6366F1'', c_type = Income\<rparr>,
     \<lparr>c_id = ''9'', c_name = ''Other'', c_icon = ''MoreHorizontal'', c_color = ''#6B7280'', c_type = Expense\<rparr>]"

section \<open>Derived statistics (App.tsx)\<close>

text \<open>
  \<open>xs.reduce((acc, t) => acc + t.amount, 0)\<close>: a left fold that starts at \<open>0\<close>.
\<close>

definition reduce_amount :: "Transaction list \<Rightarrow> jsnum" where
  "reduce_amount ts = foldl (\<lambda>acc t. js_add acc (t_amount t)) (Fin 0) ts"

record Stats =
  balance :: jsnum
  income :: jsnum
  expenses :: jsnum

definition stats :: "Transaction list \<Rightarrow> Stats" where
  "stats transactions =
    (let inc = reduce_amount (filter (\<lambda>t. t_type t = Income) transactions);
         exps = reduce_amount (filter (\<lambda>t. t_type t = Expense) transactions)
     in \<lparr>balance = js_sub inc exps, income = inc, expenses = exps\<rparr>)"

text \<open>The rational value of a finite amount, for the sums of the specification.\<close>

definition amount_value :: "Transaction \<Rightarrow> rat" where
  "amount_value t = fin_val (t_amount t)"

text \<open>
  \<open>budgetProgress\<close>: every budget is extended by the amount spent in its category
  and by \<open>Math.min((spent / budget.limit) * 100, 100)\<close>.
\<close>

record BudgetProgress = Budget +
  spent :: jsnum
  percentage :: jsnum

definition budget_spent :: "Transaction list \<Rightarrow> Budget \<Rightarrow> jsnum" where
  "budget_spent transactions budget =
    reduce_amount
      (filter (\<lambda>t. t_type t = Expense \<and> t_category t = bg_category budget) transactions)"

definition budgetProgress :: "Budget list \<Rightarrow> Transaction list \<Rightarrow> BudgetProgress list" where
  "budgetProgress budgets transactions =
    map (\<lambda>budget.
          (let sp = budget_spent transactions budget
           in \<lparr>bg_id = bg_id budget, bg_category = bg_category budget,
               bg_limit = bg_limit budget, spent = sp,
               percentage = Math_min (js_mul (js_div sp (bg_limit budget)) (Fin 100)) (Fin 100)\<rparr>))
        budgets"

text \<open>
  \<open>investmentStats\<close>: the portfolio percentage is guarded,
  \<open>totalInvested > 0 ? (profitLoss / totalInvested) * 100 : 0\<close>.
\<close>

record InvestmentStats =
  totalInvested :: jsnum
  currentValue :: jsnum
  profitLoss :: jsnum
  profitLossPercentage :: jsnum

definition investmentStats :: "Investment list \<Rightarrow> InvestmentStats" where
  "investmentStats investments =
    (let ti = foldl (\<lambda>acc iv. js_add acc (js_mul (i_purchasePrice iv) (i_quantity iv)))
                (Fin 0) investments;
         cv = foldl (\<lambda>acc iv. js_add acc (js_mul (i_currentPrice iv) (i_quantity iv)))
                (Fin 0) investments;
         pl = js_sub cv ti;
         plp = (if js_gt ti (Fin 0) then js_mul (js_div pl ti) (Fin 100) else Fin 0)
     in \<lparr>totalInvested = ti, currentValue = cv, profitLoss = pl, profitLossPercentage = plp\<rparr>)"

text \<open>
  The performance column of the investments table:
  \<open>((inv.currentPrice - inv.purchasePrice) / inv.purchasePrice) * 100\<close>,
  shown through \<open>performance.toFixed(2)\<close>.
\<close>

definition performance :: "Investment \<Rightarrow> jsnum" where
  "performance iv =
    js_mul (js_div (js_sub (i_currentPrice iv) (i_purchasePrice iv)) (i_purchasePrice iv))
      (Fin 100)"

section \<open>Filtered and sorted view (App.tsx)\<close>

text \<open>
  A string is the list of the bytes of its UTF-8 encoding. \<open>toLowerCase\<close> maps the
  letters \<open>A\<close> to \<open>Z\<close> of an ASCII string onto \<open>a\<close> to \<open>z\<close>; on a string with other
  characters it follows the case mappings of the Unicode character database, which
  belong to the platform: there it is the parameter \<open>lc\<close>. \<open>s.includes(q)\<close> holds
  when \<open>q\<close> occurs in \<open>s\<close> at some position.
\<close>

definition ascii :: "string \<Rightarrow> bool" where
  "ascii s = list_all (\<lambda>c. \<not> digit7 c) s"

definition lower_char :: "char \<Rightarrow> char" where
  "lower_char c =
    (case map_of (zip ''ABCDEFGHIJKLMNOPQRSTUVWXYZ'' ''abcdefghijklmnopqrstuvwxyz'') c of
       None \<Rightarrow> c
     | Some l \<Rightarrow> l)"

definition toLowerCase :: "(string \<Rightarrow> string) \<Rightarrow> string \<Rightarrow> string" where
  "toLowerCase lc s = (if ascii s then map lower_char s else lc s)"

fun str_includes :: "string \<Rightarrow> string \<Rightarrow> bool" where
  "str_includes [] q = (q = [])"
| "str_includes (c # cs) q = (prefix q (c # cs) \<or> str_includes cs q)"

text \<open>
  The comparator \<open>(a, b) => new Date(b.date).getTime() - new Date(a.date).getTime()\<close>.
  \<open>new Date(s).getTime()\<close> belongs to the platform; it is the parameter \<open>getTime\<close>,
  whose value \<open>None\<close> stands for the NaN of an invalid date. The difference of two
  times is NaN as soon as one of them is.
\<close>

definition compareDates :: "(string \<Rightarrow> int option) \<Rightarrow> Transaction \<Rightarrow> Transaction \<Rightarrow> int option" where
  "compareDates getTime a b =
    (case getTime (t_date b) of
       None \<Rightarrow> None
     | Some tb \<Rightarrow> (case getTime (t_date a) of None \<Rightarrow> None | Some ta \<Rightarrow> Some (tb - ta)))"

text \<open>
  \<open>Array.prototype.sort\<close> is a stable sort; a NaN returned by the comparator counts
  as \<open>0\<close>. With a consistent comparator its result is determined, and insertion
  from the right computes it: an element stays in front of the first element it does
  not have to follow.
\<close>

definition sortCompare :: "('a \<Rightarrow> 'a \<Rightarrow> int option) \<Rightarrow> 'a \<Rightarrow> 'a \<Rightarrow> int" where
  "sortCompare comparefn x y = (case comparefn x y of None \<Rightarrow> 0 | Some v \<Rightarrow> v)"

fun sort_insert :: "('a \<Rightarrow> 'a \<Rightarrow> int option) \<Rightarrow> 'a \<Rightarrow> 'a list \<Rightarrow> 'a list" where
  "sort_insert comparefn x [] = [x]"
| "sort_insert comparefn x (y # ys) =
     (if sortCompare comparefn x y \<le> 0 then x # y # ys else y # sort_insert comparefn x ys)"

definition array_sort :: "('a \<Rightarrow> 'a \<Rightarrow> int option) \<Rightarrow> 'a list \<Rightarrow> 'a list" where
  "array_sort comparefn xs = foldr (sort_insert comparefn) xs []"

definition matchesQuery :: "(string \<Rightarrow> string) \<Rightarrow> string \<Rightarrow> Transaction \<Rightarrow> bool" where
  "matchesQuery lc searchQuery t =
    (str_includes (toLowerCase lc (t_description t)) (toLowerCase lc searchQuery) \<or>
     str_includes (toLowerCase lc (t_category t)) (toLowerCase lc searchQuery))"

definition filteredTransactions ::
    "(string \<Rightarrow> int option) \<Rightarrow> (string \<Rightarrow> string) \<Rightarrow> Transaction list \<Rightarrow> string
      \<Rightarrow> Transaction list" where
  "filteredTransactions getTime lc transactions searchQuery =
    array_sort (compareDates getTime) (filter (matchesQuery lc searchQuery) transactions)"

text \<open>
  The words of the specification. Two ASCII strings are the same up to the case of
  their letters when they agree once every letter is written as a capital; \<open>s\<close>
  contains \<open>q\<close> as a case-insensitive substring when some part of \<open>s\<close> is the same as
  \<open>q\<close> up to case. Further: \<open>a\<close> is dated no earlier than \<open>b\<close>; every date of a list
  is a valid date; the text of a list and of a query is ASCII.
\<close>

definition upper_char :: "char \<Rightarrow> char" where
  "upper_char c =
    (case map_of (zip ''abcdefghijklmnopqrstuvwxyz'' ''ABCDEFGHIJKLMNOPQRSTUVWXYZ'') c of
       None \<Rightarrow> c
     | Some u \<Rightarrow> u)"

definition same_up_to_case :: "string \<Rightarrow> string \<Rightarrow> bool" where
  "same_up_to_case w q = (map upper_char w = map upper_char q)"

definition ci_contains :: "string \<Rightarrow> string \<Rightarrow> bool" where
  "ci_contains s q = (\<exists>ps w ss. s = ps @ w @ ss \<and> same_up_to_case w q)"

text \<open>\<open>s\<close> in lower case contains \<open>q\<close> in lower case.\<close>

definition lc_contains :: "(string \<Rightarrow> string) \<Rightarrow> string \<Rightarrow> string \<Rightarrow> bool" where
  "lc_contains lc s q = sublist (toLowerCase lc q) (toLowerCase lc s)"

definition ascii_text :: "Transaction list \<Rightarrow> string \<Rightarrow> bool" where
  "ascii_text ts q =
    (ascii q \<and> list_all (\<lambda>t. ascii (t_description t) \<and> ascii (t_category t)) ts)"

definition date_ge :: "(string \<Rightarrow> int option) \<Rightarrow> Transaction \<Rightarrow> Transaction \<Rightarrow> bool" where
  "date_ge getTime a b =
    (case getTime (t_date a) of
       None \<Rightarrow> False
     | Some ta \<Rightarrow> (case getTime (t_date b) of None \<Rightarrow> False | Some tb \<Rightarrow> tb \<le> ta))"

definition valid_dates :: "(string \<Rightarrow> int option) \<Rightarrow> Transaction list \<Rightarrow> bool" where
  "valid_dates getTime ts = list_all (\<lambda>t. getTime (t_date t) \<noteq> None) ts"

text \<open>The sort key of the proofs: the negated time of a valid date.\<close>

definition date_key :: "(string \<Rightarrow> int option) \<Rightarrow> Transaction \<Rightarrow> int" where
  "date_key getTime t = (case getTime (t_date t) of None \<Rightarrow> 0 | Some v \<Rightarrow> - v)"

section \<open>Insight request (getFinancialInsights)\<close>

text \<open>
  \<open>xs.slice(start)\<close>: a negative start counts from the end, and both are clamped to
  the array.
\<close>

definition slice_from :: "int \<Rightarrow> 'a list \<Rightarrow> 'a list" where
  "slice_from start xs =
    (let len = int (length xs);
         k = (if start < 0 then max (len + start) 0 else min start len)
     in drop (nat k) xs)"

record TxSummary =
  s_type :: TransactionType
  s_amount :: jsnum
  s_category :: string
  s_date :: string

definition summarize :: "Transaction \<Rightarrow> TxSummary" where
  "summarize t =
    \<lparr>s_type = t_type t, s_amount = t_amount t, s_category = t_category t, s_date = t_date t\<rparr>"

text \<open>
  \<open>getFinancialInsights\<close> returns a fixed text for the empty array; otherwise it puts
  \<open>transactions.slice(-20).map(...)\<close> into a prompt that asks to
  ``analyze these recent transactions'' and sends it. The request is the result here:
  \<open>None\<close> when nothing is sent, the summary otherwise.
\<close>

definition getFinancialInsights_summary :: "Transaction list \<Rightarrow> TxSummary list option" where
  "getFinancialInsights_summary transactions =
    (if length transactions = 0 then None
     else Some (map summarize (slice_from (- 20) transactions)))"

section \<open>State and handlers (App.tsx)\<close>

text \<open>
  The state of the component, without the variables that the handlers below neither
  read nor write (\<open>modalType\<close>, \<open>aiInsights\<close>, \<open>isAiLoading\<close>, \<open>activeTab\<close>,
  \<open>searchQuery\<close> and the forms of bills, budgets and investments).
  \<open>newTx\<close> is a \<open>Partial<Transaction>\<close>: a field can be absent. Its \<open>id\<close> is never
  written nor read. Its \<open>type\<close> is set by every write to \<open>newTx\<close> and the handler
  reads it as \<open>newTx.type as TransactionType\<close>, so it is a total field here.
\<close>

record TxForm =
  f_type :: TransactionType
  f_date :: "string option"
  f_category :: "string option"
  f_amount :: "jsnum option"
  f_description :: "string option"

record AppState =
  transactions :: "Transaction list"
  bills :: "Bill list"
  budgets :: "Budget list"
  investments :: "Investment list"
  isModalOpen :: bool
  newTx :: TxForm

text \<open>
  What a handler takes from the platform: \<open>crypto.randomUUID()\<close> and
  \<open>format(new Date(), 'yyyy-MM-dd')\<close>, whose two calls in one run of the handler
  give the same day.
\<close>

record Env =
  uuid :: string
  today :: string

text \<open>\<open>!x\<close> on an optional number and on an optional string, and \<open>x || d\<close>.\<close>

definition falsy_amount :: "jsnum option \<Rightarrow> bool" where
  "falsy_amount v = (case v of None \<Rightarrow> True | Some a \<Rightarrow> falsy_num a)"

definition falsy_str :: "string option \<Rightarrow> bool" where
  "falsy_str v = (case v of None \<Rightarrow> True | Some s \<Rightarrow> s = [])"

definition or_default :: "string option \<Rightarrow> string \<Rightarrow> string" where
  "or_default v d = (if falsy_str v then d else (case v of None \<Rightarrow> d | Some s \<Rightarrow> s))"

definition blank_form :: "string \<Rightarrow> TxForm" where
  "blank_form day =
    \<lparr>f_type = Expense, f_date = Some day, f_category = Some (c_name (DEFAULT_CATEGORIES ! 0)),
     f_amount = Some (Fin 0), f_description = Some []\<rparr>"

definition initial_state :: "string \<Rightarrow> AppState" where
  "initial_state day =
    \<lparr>transactions = [], bills = [], budgets = [], investments = [],
     isModalOpen = False, newTx = blank_form day\<rparr>"

text \<open>The edits of the form: \<open>setNewTx(prev => ({ ...prev, field: value }))\<close>.\<close>

datatype FormEdit =
    SetType TransactionType
  | SetAmount jsnum
  | SetCategory string
  | SetDate string
  | SetDescription string

fun setNewTx :: "FormEdit \<Rightarrow> AppState \<Rightarrow> AppState" where
  "setNewTx (SetType ty) s = s\<lparr>newTx := (newTx s)\<lparr>f_type := ty\<rparr>\<rparr>"
| "setNewTx (SetAmount a) s = s\<lparr>newTx := (newTx s)\<lparr>f_amount := Some a\<rparr>\<rparr>"
| "setNewTx (SetCategory c) s = s\<lparr>newTx := (newTx s)\<lparr>f_category := Some c\<rparr>\<rparr>"
| "setNewTx (SetDate d) s = s\<lparr>newTx := (newTx s)\<lparr>f_date := Some d\<rparr>\<rparr>"
| "setNewTx (SetDescription d) s = s\<lparr>newTx := (newTx s)\<lparr>f_description := Some d\<rparr>\<rparr>"

text \<open>
  \<open>handleAddTransaction\<close>: returns at once when \<open>!newTx.amount || !newTx.description\<close>;
  otherwise builds the transaction, puts it in front of the collection, closes the
  dialog and resets the form.
\<close>

definition new_transaction :: "Env \<Rightarrow> TxForm \<Rightarrow> jsnum \<Rightarrow> string \<Rightarrow> Transaction" where
  "new_transaction env form a d =
    \<lparr>t_id = uuid env,
     t_date = or_default (f_date form) (today env),
     t_amount = a,
     t_category = or_default (f_category form) ''Other'',
     t_description = d,
     t_type = f_type form\<rparr>"

definition handleAddTransaction :: "Env \<Rightarrow> AppState \<Rightarrow> AppState" where
  "handleAddTransaction env s =
    (case f_amount (newTx s) of
       None \<Rightarrow> s
     | Some a \<Rightarrow>
        (case f_description (newTx s) of
           None \<Rightarrow> s
         | Some d \<Rightarrow>
            if falsy_num a \<or> d = [] then s
            else s\<lparr>transactions := new_transaction env (newTx s) a d # transactions s,
                   isModalOpen := False,
                   newTx := blank_form (today env)\<rparr>))"

definition deleteTransaction :: "string \<Rightarrow> AppState \<Rightarrow> AppState" where
  "deleteTransaction i s = s\<lparr>transactions := filter (\<lambda>t. t_id t \<noteq> i) (transactions s)\<rparr>"

definition toggleBillPaid :: "string \<Rightarrow> AppState \<Rightarrow> AppState" where
  "toggleBillPaid i s =
    s\<lparr>bills := map (\<lambda>b. if b_id b = i then b\<lparr>b_isPaid := \<not> b_isPaid b\<rparr> else b) (bills s)\<rparr>"

text \<open>
  The states the application reaches from the empty collections through edits of the
  form, additions and deletions.
\<close>

inductive reachable :: "AppState \<Rightarrow> bool" where
  start: "reachable (initial_state day)"
| edit: "reachable s \<Longrightarrow> reachable (setNewTx e s)"
| add: "reachable s \<Longrightarrow> reachable (handleAddTransaction env s)"
| delete: "reachable s \<Longrightarrow> reachable (deleteTransaction i s)"

definition js_nonneg :: "jsnum \<Rightarrow> bool" where
  "js_nonneg x =
    (case x of Fin a \<Rightarrow> 0 \<le> a | NZero \<Rightarrow> True | PInf \<Rightarrow> True | NInf \<Rightarrow> False | NaN \<Rightarrow> False)"

text \<open>
  What the controls of the form deliver: the category comes from a \<open>select\<close> whose
  options are the seeded categories of the type chosen in the form.
\<close>

fun form_input :: "AppState \<Rightarrow> FormEdit \<Rightarrow> bool" where
  "form_input s (SetCategory c) =
     (c \<in> set (map c_name (filter (\<lambda>cat. c_type cat = f_type (newTx s)) DEFAULT_CATEGORIES)))"
| "form_input s e = True"

definition accepts :: "AppState \<Rightarrow> bool" where
  "accepts s =
    (\<not> falsy_amount (f_amount (newTx s)) \<and> \<not> falsy_str (f_description (newTx s)))"

text \<open>
  \<open>crypto.randomUUID()\<close> returns a fresh universally unique identifier: an id that
  the platform has not issued before. \<open>add_step I s env s'\<close> is a run of the handler
  on a platform that has issued the ids \<open>I\<close>: the id it draws is not among them, and
  the handler leaves the state \<open>s'\<close>.
\<close>

definition add_step :: "string set \<Rightarrow> AppState \<Rightarrow> Env \<Rightarrow> AppState \<Rightarrow> bool" where
  "add_step I s env s' = (uuid env \<notin> I \<and> s' = handleAddTransaction env s)"

text \<open>
  The runs of the application, with the ids issued so far. A run starts with the
  form as the component initialises it and with a stored collection whose ids were
  issued earlier; the form is edited through its controls; an addition that is
  accepted draws a new id, one that is rejected draws none.
\<close>

inductive run :: "string set \<Rightarrow> AppState \<Rightarrow> bool" where
  load: "newTx s = blank_form day \<Longrightarrow> set (map t_id (transactions s)) \<subseteq> I \<Longrightarrow> run I s"
| input: "run I s \<Longrightarrow> form_input s e \<Longrightarrow> run I (setNewTx e s)"
| added: "run I s \<Longrightarrow> accepts s \<Longrightarrow> add_step I s env s' \<Longrightarrow> run (insert (uuid env) I) s'"
| rejected: "run I s \<Longrightarrow> \<not> accepts s \<Longrightarrow> run I (handleAddTransaction env s)"
| deleted: "run I s \<Longrightarrow> run I (deleteTransaction i s)"

text \<open>
  Filling the form: the edits \<open>es\<close> applied in order, each one delivered by a control
  of the form.
\<close>

fun fill :: "FormEdit list \<Rightarrow> AppState \<Rightarrow> AppState" where
  "fill [] s = s"
| "fill (e # es) s = fill es (setNewTx e s)"

fun inputs_ok :: "AppState \<Rightarrow> FormEdit list \<Rightarrow> bool" where
  "inputs_ok s [] = True"
| "inputs_ok s (e # es) = (form_input s e \<and> inputs_ok (setNewTx e s) es)"

fun is_SetCategory :: "FormEdit \<Rightarrow> bool" where
  "is_SetCategory (SetCategory c) = True"
| "is_SetCategory e = False"

fun is_SetDate :: "FormEdit \<Rightarrow> bool" where
  "is_SetDate (SetDate d) = True"
| "is_SetDate e = False"

section \<open>Concrete inputs\<close>

text \<open>The two transactions of the example scenario of the specification.\<close>

definition tx_salary :: Transaction where
  "tx_salary =
    \<lparr>t_id = ''id-1'', t_date = ''2024-01-01'', t_amount = Fin 100, t_category = ''Salary'',
     t_description = ''Pay'', t_type = Income\<rparr>"

definition tx_food :: Transaction where
  "tx_food =
    \<lparr>t_id = ''id-2'', t_date = ''2024-01-02'', t_amount = Fin 40, t_category = ''Food'',
     t_description = ''Lunch'', t_type = Expense\<rparr>"

definition example_getTime :: "string \<Rightarrow> int option" where
  "example_getTime s =
    (if s = ''2024-01-01'' then Some 1704067200000
     else if s = ''2024-01-02'' then Some 1704153600000
     else None)"

definition example_env :: Env where
  "example_env = \<lparr>uuid = ''id-2'', today = ''2024-01-03''\<rparr>"

text \<open>A state whose form holds a valid expense of 40, and two that the handler rejects.\<close>

definition example_form :: TxForm where
  "example_form =
    \<lparr>f_type = Expense, f_date = Some ''2024-01-02'', f_category = Some ''Food'',
     f_amount = Some (Fin 40), f_description = Some ''Lunch''\<rparr>"

definition example_state :: AppState where
  "example_state =
    \<lparr>transactions = [tx_salary], bills = [], budgets = [], investments = [],
     isModalOpen = True, newTx = example_form\<rparr>"

definition zero_amount_state :: AppState where
  "zero_amount_state = example_state\<lparr>newTx := example_form\<lparr>f_amount := Some (Fin 0)\<rparr>\<rparr>"

definition empty_description_state :: AppState where
  "empty_description_state = example_state\<lparr>newTx := example_form\<lparr>f_description := Some []\<rparr>\<rparr>"

text \<open>The state reached from the start by typing the amount \<open>-5\<close> and a description.\<close>

definition negative_form_state :: AppState where
  "negative_form_state =
    setNewTx (SetDescription ''Refund'')
      (setNewTx (SetAmount (Fin (- 5))) (initial_state ''2024-01-03''))"

text \<open>
  Twenty-one transactions, the newest added in front: the amount of a transaction is
  its rank in the order of addition, \<open>21\<close> for the newest and \<open>1\<close> for the oldest.
\<close>

definition tx_n :: "char \<Rightarrow> rat \<Rightarrow> Transaction" where
  "tx_n c n =
    \<lparr>t_id = [c], t_date = ''2024-01-01'', t_amount = Fin n,
     t_category = ''Other'', t_description = ''item'', t_type = Expense\<rparr>"

definition newest_first_21 :: "Transaction list" where
  "newest_first_21 =
    map2 tx_n ''utsrqponmlkjihgfedcba''
      [21, 20, 19, 18, 17, 16, 15, 14, 13, 12, 11, 10, 9, 8, 7, 6, 5, 4, 3, 2, 1]"

definition example_bills :: "Bill list" where
  "example_bills =
    [\<lparr>b_id = ''b1'', b_name = ''Power'', b_amount = Fin 60, b_dueDate = ''2024-02-01'',
      b_category = ''Utilities'', b_isPaid = False\<rparr>,
     \<lparr>b_id = ''b2'', b_name = ''Rent'', b_amount = Fin 900, b_dueDate = ''2024-02-01'',
      b_category = ''Utilities'', b_isPaid = True\<rparr>]"

definition zero_limit_budget :: Budget where
  "zero_limit_budget = \<lparr>bg_id = ''g1'', bg_category = ''Food'', bg_limit = Fin 0\<rparr>"

definition free_asset :: Investment where
  "free_asset =
    \<lparr>i_id = ''i1'', i_assetName = ''Airdrop'', i_symbol = ''AIR'', i_quantity = Fin 2,
     i_purchasePrice = Fin 0, i_currentPrice = Fin 5, i_purchaseDate = ''2024-01-01'',
     i_category = Crypto\<rparr>"

text \<open>
  The doubles that the literals \<open>0.1\<close>, \<open>0.2\<close> and \<open>0.3\<close> denote, and the largest
  finite double, \<open>Number.MAX_VALUE\<close>.
\<close>

definition double_0_1 :: rat where
  "double_0_1 = 3602879701896397 / 2 ^ 55"

definition double_0_2 :: rat where
  "double_0_2 = 3602879701896397 / 2 ^ 54"

definition double_0_3 :: rat where
  "double_0_3 = 5404319552844595 / 2 ^ 54"

definition MAX_VALUE :: rat where
  "MAX_VALUE = 2 ^ 1024 - 2 ^ 971"

definition tx_of :: "TransactionType \<Rightarrow> rat \<Rightarrow> Transaction" where
  "tx_of ty a =
    \<lparr>t_id = ''id'', t_date = ''2024-01-01'', t_amount = Fin a, t_category = ''Other'',
     t_description = ''item'', t_type = ty\<rparr>"

definition drift_transactions :: "Transaction list" where
  "drift_transactions = [tx_of Income double_0_1, tx_of Income double_0_2, tx_of Expense double_0_3]"

definition overflow_transactions :: "Transaction list" where
  "overflow_transactions =
    [tx_of Income MAX_VALUE, tx_of Income MAX_VALUE, tx_of Expense MAX_VALUE,
     tx_of Expense MAX_VALUE]"

text \<open>
  The Greek capital sigma, the small sigma and the final small sigma in UTF-8; a
  transaction described by \<open>A\<close> followed by a capital sigma; and the values of
  \<open>toLowerCase\<close> on that description and on the capital sigma alone: the sigma that
  ends a word becomes the final sigma.
\<close>

definition capital_sigma :: string where
  "capital_sigma = [CHR 0xCE, CHR 0xA3]"

definition small_sigma :: string where
  "small_sigma = [CHR 0xCF, CHR 0x83]"

definition final_sigma :: string where
  "final_sigma = [CHR 0xCF, CHR 0x82]"

definition tx_sigma :: Transaction where
  "tx_sigma =
    \<lparr>t_id = ''id-3'', t_date = ''2024-01-01'', t_amount = Fin 7, t_category = ''Other'',
     t_description = CHR ''A'' # capital_sigma, t_type = Expense\<rparr>"

definition sigma_toLowerCase :: "string \<Rightarrow> string" where
  "sigma_toLowerCase s =
    (if s = CHR ''A'' # capital_sigma then CHR ''a'' # final_sigma
     else if s = capital_sigma then small_sigma
     else s)"

text \<open>
  A run: the stored collection holds the salary, whose id was issued earlier; the
  user types an amount and a description and leaves the category and the date alone.
\<close>

definition loaded_state :: AppState where
  "loaded_state =
    \<lparr>transactions = [tx_salary], bills = [], budgets = [], investments = [],
     isModalOpen = False, newTx = blank_form ''2024-01-03''\<rparr>"

definition lunch_edits :: "FormEdit list" where
  "lunch_edits = [SetAmount (Fin 40), SetDescription ''Lunch'']"

section \<open>Rounding to the nearest double\<close>

lemma pow2_powi: "pow2 e = 2 powi e"
  by (simp add: pow2_def power_int_def inverse_eq_divide power_one_over)

lemma pow2_pos: "0 < pow2 e"
  by (simp add: pow2_powi)

lemma pow2_less: "pow2 a < pow2 b \<longleftrightarrow> a < b"
proof
  assume "a < b"
  then show "pow2 a < pow2 b"
    by (simp add: pow2_powi power_int_strict_increasing)
next
  assume l: "pow2 a < pow2 b"
  show "a < b"
  proof (rule ccontr)
    assume "\<not> a < b"
    then have "b \<le> a" by simp
    then have "pow2 b \<le> pow2 a"
      by (simp add: pow2_powi power_int_increasing)
    with l show False by simp
  qed
qed

lemma pow2_le: "pow2 a \<le> pow2 b \<longleftrightarrow> a \<le> b"
  using pow2_less [of b a] by (auto simp: not_less [symmetric])

lemma pow2_add: "pow2 (a + b) = pow2 a * pow2 b"
  by (simp add: pow2_powi power_int_add)

lemma pow2_nat: "pow2 (int n) = 2 ^ n"
  by (simp add: pow2_def)

lemma find_exp_eq:
  assumes "lo \<le> e" and "e < hi" and "pow2 e \<le> m" and "m < pow2 (e + 1)"
  shows "find_exp lo hi m = e"
  using assms
proof (induction lo hi m rule: find_exp.induct)
  case (1 lo hi m)
  show ?case
  proof (cases "hi - lo \<le> 1")
    case True
    with "1.prems" have "lo = e" by simp
    with True show ?thesis by (subst find_exp.simps) simp
  next
    case False
    let ?mid = "(lo + hi) div 2"
    show ?thesis
    proof (cases "pow2 ?mid \<le> m")
      case True
      with "1.prems" have "pow2 ?mid < pow2 (e + 1)" by simp
      then have "?mid \<le> e" by (simp add: pow2_less)
      with "1.IH"(1) [OF False True] "1.prems" False True show ?thesis
        by (subst find_exp.simps) simp
    next
      case above: False
      with "1.prems" have "pow2 e < pow2 ?mid" by simp
      then have "e < ?mid" by (simp add: pow2_less)
      with "1.IH"(2) [OF False above] "1.prems" False above show ?thesis
        by (subst find_exp.simps) simp
    qed
  qed
qed

lemma binade_eq:
  assumes "- 1022 \<le> e" and "e \<le> 1023"
    and "e = - 1022 \<or> pow2 e \<le> m" and "m < pow2 (e + 1)"
  shows "binade m = e"
proof (cases "m < pow2 (- 1022)")
  case True
  have "e = - 1022"
  proof (rule ccontr)
    assume "e \<noteq> - 1022"
    with assms have "pow2 e \<le> m" by simp
    with True have "pow2 e < pow2 (- 1022)" by simp
    then have "e < - 1022" by (simp only: pow2_less)
    with assms show False by simp
  qed
  with True show ?thesis by (simp add: binade_def)
next
  case False
  have "pow2 (e + 1) \<le> pow2 1024" using assms by (simp add: pow2_le)
  with assms have lt: "m < pow2 1024" by simp
  have ge: "pow2 e \<le> m" using assms False by auto
  have "find_exp (- 1022) 1024 m = e"
    using assms ge by (intro find_exp_eq) simp_all
  with False lt show ?thesis by (simp add: binade_def)
qed

lemma round_half_even_near:
  assumes "of_int n - 1 / 2 < r" and "r < of_int n + 1 / 2"
  shows "round_half_even r = n"
proof (cases "of_int n \<le> r")
  case True
  with assms have "\<lfloor>r\<rfloor> = n" by (intro floor_unique) simp_all
  with assms show ?thesis by (simp add: round_half_even_def Let_def)
next
  case False
  with assms have "\<lfloor>r\<rfloor> = n - 1" by (intro floor_unique) simp_all
  with assms show ?thesis by (auto simp: round_half_even_def Let_def)
qed

lemma round_half_even_tie:
  assumes "r = of_int n + 1 / 2"
  shows "round_half_even r = (if even n then n else n + 1)"
proof -
  have "\<lfloor>r\<rfloor> = n" using assms by (intro floor_unique) simp_all
  with assms show ?thesis by (simp add: round_half_even_def Let_def)
qed

lemma round_half_even_int: "round_half_even (of_int n) = n"
  by (rule round_half_even_near) simp_all

text \<open>
  The rounding of \<open>x\<close>, given the exponent of its binade and its rounded significand.
\<close>

lemma round_double_eq:
  assumes "- 1022 \<le> e" and "e \<le> 1023"
    and "e = - 1022 \<or> pow2 e \<le> \<bar>x\<bar>" and "\<bar>x\<bar> < pow2 (e + 1)"
    and "round_half_even (\<bar>x\<bar> / pow2 (e - 52)) = n"
  shows "round_double x =
    (if pow2 1024 \<le> of_int n * pow2 (e - 52) then (if x < 0 then NInf else PInf)
     else if of_int n * pow2 (e - 52) = 0 then (if x < 0 then NZero else Fin 0)
     else Fin (if x < 0 then - (of_int n * pow2 (e - 52)) else of_int n * pow2 (e - 52)))"
  by (simp only: round_double_def Let_def binade_eq [OF assms(1-4)] assms(5))

lemma round_double_overflow:
  assumes "pow2 1024 \<le> \<bar>x\<bar>"
  shows "round_double x = (if x < 0 then NInf else PInf)"
proof -
  have b: "binade \<bar>x\<bar> = 1023"
  proof -
    have "pow2 (- 1022) < pow2 1024" by (simp add: pow2_less)
    with assms have "\<not> \<bar>x\<bar> < pow2 (- 1022)" by simp
    with assms show ?thesis by (simp add: binade_def)
  qed
  let ?q = "pow2 971"
  have q: "0 < ?q" by (rule pow2_pos)
  have split: "pow2 1024 = of_int (2 ^ 53) * ?q"
    by (simp add: pow2_def)
  have "of_int (2 ^ 53) \<le> \<bar>x\<bar> / ?q"
    using assms q unfolding split by (simp add: pos_le_divide_eq)
  then have "(2 ^ 53 :: int) \<le> \<lfloor>\<bar>x\<bar> / ?q\<rfloor>"
    by (simp only: le_floor_iff)
  moreover have "\<lfloor>\<bar>x\<bar> / ?q\<rfloor> \<le> round_half_even (\<bar>x\<bar> / ?q)"
    by (simp add: round_half_even_def Let_def)
  ultimately have "(2 ^ 53 :: int) \<le> round_half_even (\<bar>x\<bar> / ?q)"
    by (rule order_trans)
  then have "of_int (2 ^ 53) \<le> (of_int (round_half_even (\<bar>x\<bar> / ?q)) :: rat)"
    by (simp only: of_int_le_iff)
  then have "of_int (2 ^ 53) * ?q \<le> of_int (round_half_even (\<bar>x\<bar> / ?q)) * ?q"
    using q by (simp only: mult_le_cancel_right) simp
  then have "pow2 1024 \<le> of_int (round_half_even (\<bar>x\<bar> / ?q)) * ?q"
    by (simp only: split)
  then show ?thesis
    by (simp add: round_double_def Let_def b)
qed

lemma exponent_exists:
  fixes m :: rat
  assumes "1 \<le> m" and "m < 2 ^ n"
  shows "\<exists>e<n. 2 ^ e \<le> m \<and> m < 2 ^ Suc e"
  using assms
proof (induction n)
  case 0
  then show ?case by simp
next
  case (Suc n)
  show ?case
  proof (cases "m < 2 ^ n")
    case True
    with Suc obtain e where "e < n" and "2 ^ e \<le> m \<and> m < 2 ^ Suc e" by blast
    then show ?thesis by (intro exI [of _ e]) simp
  next
    case False
    with Suc.prems show ?thesis by (intro exI [of _ n]) simp
  qed
qed

text \<open>An integer of magnitude at most \<open>2\<^sup>5\<^sup>3\<close> is a double: rounding leaves it.\<close>

lemma round_double_int:
  assumes "k \<noteq> 0" and "\<bar>k\<bar> \<le> 2 ^ 53"
  shows "round_double (of_int k) = Fin (of_int k)"
proof -
  let ?x = "of_int k :: rat"
  have abs: "\<bar>?x\<bar> = of_int \<bar>k\<bar>" by simp
  have "1 \<le> \<bar>k\<bar>" using assms(1) by simp
  then have m1: "1 \<le> \<bar>?x\<bar>"
    unfolding abs by (metis of_int_1 of_int_le_iff)
  have m2: "\<bar>?x\<bar> \<le> 2 ^ 53"
    using assms(2) unfolding abs by (metis of_int_le_iff of_int_numeral of_int_power)
  then have "\<bar>?x\<bar> < 2 ^ 54"
    by (rule order_le_less_trans) simp
  from exponent_exists [OF m1 this]
  obtain e where e: "e < 54" "2 ^ e \<le> \<bar>?x\<bar>" "\<bar>?x\<bar> < 2 ^ Suc e" by blast
  have "\<exists>n. \<bar>?x\<bar> / pow2 (int e - 52) = of_int n"
  proof (cases "e \<le> 52")
    case True
    then have "pow2 (int e - 52) = 1 / 2 ^ (52 - e)"
      by (cases "e = 52") (simp_all add: pow2_def nat_diff_distrib')
    then have "\<bar>?x\<bar> / pow2 (int e - 52) = of_int (\<bar>k\<bar> * 2 ^ (52 - e))"
      by simp
    then show ?thesis by blast
  next
    case False
    with e have e53: "e = 53" by simp
    with e m2 have "\<bar>?x\<bar> = 2 ^ 53" by simp
    then have "\<bar>?x\<bar> / pow2 (int e - 52) = of_int (2 ^ 52)"
      by (simp add: e53 pow2_def)
    then show ?thesis by blast
  qed
  then obtain n where n: "\<bar>?x\<bar> / pow2 (int e - 52) = of_int n" by blast
  then have r: "round_half_even (\<bar>?x\<bar> / pow2 (int e - 52)) = n"
    by (simp only: round_half_even_int)
  have restore: "of_int n * pow2 (int e - 52) = \<bar>?x\<bar>"
    using n pow2_pos [of "int e - 52"] by (simp add: field_simps)
  have small: "\<not> pow2 1024 \<le> \<bar>?x\<bar>"
  proof -
    have "(2::rat) ^ 53 < 2 ^ 1024" by simp
    with m2 show ?thesis by (simp add: pow2_def)
  qed
  have nz: "\<bar>?x\<bar> \<noteq> 0" using m1 by simp
  have up: "pow2 (int e + 1) = 2 * 2 ^ e"
    by (simp add: pow2_def nat_add_distrib)
  have "round_double ?x = Fin (if ?x < 0 then - \<bar>?x\<bar> else \<bar>?x\<bar>)"
    using e small nz
    by (subst round_double_eq [where e = "int e" and n = n, OF _ _ _ _ r])
      (simp_all add: pow2_nat up restore del: of_int_abs)
  then show ?thesis by (simp add: abs_if del: of_int_abs)
qed

lemma round_double_numeral:
  assumes "(numeral k :: int) \<le> 2 ^ 53"
  shows "round_double (numeral k) = Fin (numeral k)"
  using round_double_int [of "numeral k"] assms by simp

text \<open>A normal double is its own rounding.\<close>

lemma round_double_normal:
  assumes "- 1022 \<le> e" and "e \<le> 1023" and "2 ^ 52 \<le> n" and "n < 2 ^ 53"
  shows "round_double (of_int n * pow2 (e - 52)) = Fin (of_int n * pow2 (e - 52))"
proof -
  let ?q = "pow2 (e - 52)"
  let ?x = "of_int n * ?q"
  have q: "0 < ?q" by (rule pow2_pos)
  have n0: "0 < n" using assms(3) by (rule less_le_trans [rotated]) simp
  then have x: "0 < ?x" using q by simp
  have a0: "52 + (e - 52) = e" and a1: "53 + (e - 52) = e + 1"
    by simp_all
  have p52: "pow2 52 = 2 ^ 52" and p53: "pow2 53 = 2 ^ 53"
    by (simp_all add: pow2_def)
  have e: "pow2 e = 2 ^ 52 * ?q"
    using pow2_add [of 52 "e - 52"] unfolding a0 p52 .
  have e1: "pow2 (e + 1) = 2 ^ 53 * ?q"
    using pow2_add [of 53 "e - 52"] unfolding a1 p53 .
  have "(2 ^ 52 :: rat) \<le> of_int n" and "(of_int n :: rat) < 2 ^ 53"
    using assms(3,4) by (metis of_int_le_iff of_int_numeral of_int_power,
        metis of_int_less_iff of_int_numeral of_int_power)
  then have lo: "pow2 e \<le> \<bar>?x\<bar>" and hi: "\<bar>?x\<bar> < pow2 (e + 1)"
    using q x by (simp_all add: e e1 abs_of_pos del: of_int_abs)
  have r: "round_half_even (\<bar>?x\<bar> / ?q) = n"
    using q x by (simp add: abs_of_pos round_half_even_int)
  have "pow2 (e + 1) \<le> pow2 1024" using assms(2) by (simp add: pow2_le)
  with hi have small: "\<not> pow2 1024 \<le> ?x" using x by (simp add: abs_of_pos)
  show ?thesis
    using small x lo
    by (subst round_double_eq [where e = e and n = n, OF assms(1,2) _ hi r]) simp_all
qed

text \<open>The literals \<open>0.1\<close>, \<open>0.2\<close> and \<open>0.3\<close> denote the doubles of the examples.\<close>

lemma double_literals:
  "round_double (1 / 10) = Fin double_0_1"
  "round_double (2 / 10) = Fin double_0_2"
  "round_double (3 / 10) = Fin double_0_3"
proof -
  have r1: "round_half_even (\<bar>1 / 10\<bar> / pow2 (- 4 - 52)) = 7205759403792794"
    by (rule round_half_even_near) (simp_all add: pow2_def)
  show "round_double (1 / 10) = Fin double_0_1"
    by (subst round_double_eq [where e = "- 4", OF _ _ _ _ r1])
      (simp_all add: pow2_def double_0_1_def)
  have r2: "round_half_even (\<bar>2 / 10\<bar> / pow2 (- 3 - 52)) = 7205759403792794"
    by (rule round_half_even_near) (simp_all add: pow2_def)
  show "round_double (2 / 10) = Fin double_0_2"
    by (subst round_double_eq [where e = "- 3", OF _ _ _ _ r2])
      (simp_all add: pow2_def double_0_2_def)
  have r3: "round_half_even (\<bar>3 / 10\<bar> / pow2 (- 2 - 52)) = 5404319552844595"
    by (rule round_half_even_near) (simp_all add: pow2_def)
  show "round_double (3 / 10) = Fin double_0_3"
    by (subst round_double_eq [where e = "- 2", OF _ _ _ _ r3])
      (simp_all add: pow2_def double_0_3_def)
qed

lemma doubles:
  "round_double double_0_1 = Fin double_0_1"
  "round_double double_0_2 = Fin double_0_2"
  "round_double double_0_3 = Fin double_0_3"
  "round_double MAX_VALUE = Fin MAX_VALUE"
proof -
  have "double_0_1 = of_int 7205759403792794 * pow2 (- 4 - 52)"
    by (simp add: double_0_1_def pow2_def)
  then show "round_double double_0_1 = Fin double_0_1"
    using round_double_normal [of "- 4" 7205759403792794] by simp
  have "double_0_2 = of_int 7205759403792794 * pow2 (- 3 - 52)"
    by (simp add: double_0_2_def pow2_def)
  then show "round_double double_0_2 = Fin double_0_2"
    using round_double_normal [of "- 3" 7205759403792794] by simp
  have "double_0_3 = of_int 5404319552844595 * pow2 (- 2 - 52)"
    by (simp add: double_0_3_def pow2_def)
  then show "round_double double_0_3 = Fin double_0_3"
    using round_double_normal [of "- 2" 5404319552844595] by simp
  have "MAX_VALUE = of_int (2 ^ 53 - 1) * pow2 (1023 - 52)"
    by (simp add: MAX_VALUE_def pow2_def)
  then show "round_double MAX_VALUE = Fin MAX_VALUE"
    using round_double_normal [of 1023 "2 ^ 53 - 1"] by simp
qed

lemma half: "round_double (1 / 2) = Fin (1 / 2)"
proof -
  have h: "of_int (2 ^ 52) * pow2 (- 1 - 52) = (1 / 2 :: rat)"
    by (simp add: pow2_def)
  have "round_double (of_int (2 ^ 52) * pow2 (- 1 - 52))
      = Fin (of_int (2 ^ 52) * pow2 (- 1 - 52))"
    by (rule round_double_normal) simp_all
  then show ?thesis
    unfolding h .
qed

lemma js_add_zero_double:
  assumes "round_double a = Fin a"
  shows "js_add (Fin 0) (Fin a) = Fin a"
  using assms by (cases "a = 0") simp_all

section \<open>Totals\<close>

lemma amount_value_fun: "amount_value = (\<lambda>t. fin_val (t_amount t))"
  by (rule ext) (simp add: amount_value_def)

lemma js_add_int:
  assumes "\<bar>i + j\<bar> \<le> 2 ^ 53"
  shows "js_add (Fin (of_int i)) (Fin (of_int j)) = Fin (of_int (i + j))"
proof (cases "i + j = 0")
  case True
  then have "(of_int i :: rat) + of_int j = 0"
    by (metis of_int_0 of_int_add)
  with True show ?thesis by simp
next
  case False
  then have "(of_int i :: rat) + of_int j \<noteq> 0"
    by (metis of_int_0 of_int_add of_int_eq_iff)
  with round_double_int [OF False assms] show ?thesis by simp
qed

lemma is_integerE:
  assumes "is_integer x"
  obtains k where "x = Fin (of_int k)"
  using assms by (cases x) (auto simp: is_integer_def intro: that [of "\<lfloor>fin_val x\<rfloor>"])

text \<open>
  The left fold of \<open>+\<close> over integers is exact as long as the magnitudes add up to
  at most \<open>2\<^sup>5\<^sup>3\<close>.
\<close>

lemma foldl_js_add_int:
  assumes "list_all is_integer xs"
    and "\<bar>of_int i\<bar> + sum_list (map (\<lambda>x. \<bar>fin_val x\<bar>) xs) \<le> 2 ^ 53"
  shows "foldl js_add (Fin (of_int i)) xs = Fin (of_int i + sum_list (map fin_val xs))"
  using assms
proof (induction xs arbitrary: i)
  case Nil
  show ?case by simp
next
  case (Cons x xs)
  from Cons.prems(1) obtain j where x: "x = Fin (of_int j)"
    by (auto elim: is_integerE)
  have nonneg: "0 \<le> sum_list (map (\<lambda>x. \<bar>fin_val x\<bar>) xs)"
    by (rule sum_list_nonneg) auto
  have "\<bar>(of_int i :: rat) + of_int j\<bar> \<le> \<bar>of_int i\<bar> + \<bar>of_int j\<bar>"
    by (rule abs_triangle_ineq)
  with Cons.prems(2) nonneg have b: "\<bar>(of_int (i + j) :: rat)\<bar> \<le> 2 ^ 53"
    by (simp add: x)
  then have "(of_int \<bar>i + j\<bar> :: rat) \<le> of_int (2 ^ 53)"
    by simp
  then have bi: "\<bar>i + j\<bar> \<le> 2 ^ 53"
    by (simp only: of_int_le_iff)
  have step: "js_add (Fin (of_int i)) x = Fin (of_int (i + j))"
    unfolding x by (rule js_add_int [OF bi])
  have "\<bar>(of_int (i + j) :: rat)\<bar> + sum_list (map (\<lambda>x. \<bar>fin_val x\<bar>) xs) \<le> 2 ^ 53"
  proof -
    have "\<bar>(of_int (i + j) :: rat)\<bar> \<le> \<bar>of_int i\<bar> + \<bar>of_int j\<bar>"
      using abs_triangle_ineq [of "of_int i :: rat" "of_int j"] by simp
    with Cons.prems(2) show ?thesis by (simp add: x)
  qed
  with Cons.IH [of "i + j"] Cons.prems(1)
  have rest: "foldl js_add (Fin (of_int (i + j))) xs
      = Fin (of_int (i + j) + sum_list (map fin_val xs))"
    by simp
  have "foldl js_add (Fin (of_int i)) (x # xs) = foldl js_add (Fin (of_int (i + j))) xs"
    by (simp only: foldl_Cons step)
  also note rest
  also have "Fin (of_int (i + j) + sum_list (map fin_val xs))
      = Fin (of_int i + sum_list (map fin_val (x # xs)))"
    by (simp add: x)
  finally show ?case .
qed

lemma reduce_amount_foldl: "reduce_amount ts = foldl js_add (Fin 0) (map t_amount ts)"
  by (simp add: reduce_amount_def foldl_map)

lemma reduce_amount_int:
  assumes "list_all (\<lambda>t. is_integer (t_amount t)) ts"
    and "sum_list (map (\<lambda>t. \<bar>amount_value t\<bar>) ts) \<le> 2 ^ 53"
  shows "reduce_amount ts = Fin (sum_list (map amount_value ts))"
proof -
  have "foldl js_add (Fin (of_int 0)) (map t_amount ts)
      = Fin (of_int 0 + sum_list (map fin_val (map t_amount ts)))"
    using assms
    by (intro foldl_js_add_int) (simp_all add: list_all_iff comp_def amount_value_fun)
  then show ?thesis
    by (simp add: reduce_amount_foldl comp_def amount_value_fun)
qed

lemma sum_filter_le:
  fixes f :: "'a \<Rightarrow> rat"
  assumes "\<And>x. 0 \<le> f x"
  shows "sum_list (map f (filter P xs)) \<le> sum_list (map f xs)"
  using assms by (induction xs) (auto intro: add_increasing)

lemma sum_filter_split:
  fixes f :: "'a \<Rightarrow> rat"
  shows "sum_list (map f (filter P xs)) + sum_list (map f (filter (\<lambda>x. \<not> P x) xs))
       = sum_list (map f xs)"
  by (induction xs) simp_all

lemma abs_sum_list_le:
  fixes f :: "'a \<Rightarrow> rat"
  shows "\<bar>sum_list (map f xs)\<bar> \<le> sum_list (map (\<lambda>x. \<bar>f x\<bar>) xs)"
  by (induction xs) (auto intro: order_trans [OF abs_triangle_ineq])

lemma sum_list_int:
  assumes "list_all (\<lambda>t. is_integer (t_amount t)) ts"
  shows "\<exists>k. sum_list (map amount_value ts) = of_int k"
  using assms
proof (induction ts)
  case Nil
  show ?case by (intro exI [of _ 0]) simp
next
  case (Cons t ts)
  then obtain k where k: "sum_list (map amount_value ts) = of_int k" by auto
  from Cons.prems obtain j where "t_amount t = Fin (of_int j)"
    by (auto elim: is_integerE)
  then have "sum_list (map amount_value (t # ts)) = of_int (j + k)"
    by (simp add: k amount_value_def)
  then show ?case by blast
qed

lemma expense_filter: "(\<lambda>t. t_type t = Expense) = (\<lambda>t. \<not> t_type t = Income)"
  by (rule ext) (metis TransactionType.exhaust TransactionType.distinct(1))

lemma stats_exact:
  assumes int: "list_all (\<lambda>t. is_integer (t_amount t)) ts"
    and bound: "sum_list (map (\<lambda>t. \<bar>amount_value t\<bar>) ts) \<le> 2 ^ 53"
  shows "stats ts =
    \<lparr>balance = Fin (sum_list (map amount_value (filter (\<lambda>t. t_type t = Income) ts))
                    - sum_list (map amount_value (filter (\<lambda>t. t_type t = Expense) ts))),
     income = Fin (sum_list (map amount_value (filter (\<lambda>t. t_type t = Income) ts))),
     expenses = Fin (sum_list (map amount_value (filter (\<lambda>t. t_type t = Expense) ts)))\<rparr>"
proof -
  let ?inc = "filter (\<lambda>t. t_type t = Income) ts"
  let ?exp = "filter (\<lambda>t. t_type t = Expense) ts"
  let ?abs = "\<lambda>t. \<bar>amount_value t\<bar>"
  have split: "sum_list (map ?abs ?inc) + sum_list (map ?abs ?exp) = sum_list (map ?abs ts)"
    unfolding expense_filter by (rule sum_filter_split)
  have nn: "0 \<le> sum_list (map ?abs ?inc)" "0 \<le> sum_list (map ?abs ?exp)"
    by (auto intro!: sum_list_nonneg)
  have iint: "list_all (\<lambda>t. is_integer (t_amount t)) ?inc"
    and eint: "list_all (\<lambda>t. is_integer (t_amount t)) ?exp"
    using int by (simp_all add: list_all_iff)
  have ib: "sum_list (map ?abs ?inc) \<le> 2 ^ 53" and eb: "sum_list (map ?abs ?exp) \<le> 2 ^ 53"
    using split nn bound by simp_all
  have inc: "reduce_amount ?inc = Fin (sum_list (map amount_value ?inc))"
    by (rule reduce_amount_int [OF iint ib])
  have exp: "reduce_amount ?exp = Fin (sum_list (map amount_value ?exp))"
    by (rule reduce_amount_int [OF eint eb])
  obtain i where i: "sum_list (map amount_value ?inc) = of_int i"
    using sum_list_int [OF iint] by blast
  obtain e where e: "sum_list (map amount_value ?exp) = of_int e"
    using sum_list_int [OF eint] by blast
  have "\<bar>(of_int i :: rat) - of_int e\<bar> \<le> \<bar>of_int i\<bar> + \<bar>of_int e\<bar>"
    by (rule abs_triangle_ineq4)
  also have "\<dots> \<le> sum_list (map ?abs ?inc) + sum_list (map ?abs ?exp)"
    using abs_sum_list_le [of amount_value ?inc] abs_sum_list_le [of amount_value ?exp]
    by (simp only: i e add_mono)
  also have "\<dots> \<le> 2 ^ 53"
    using split bound by simp
  finally have "(of_int \<bar>i - e\<bar> :: rat) \<le> of_int (2 ^ 53)"
    by simp
  then have "\<bar>i - e\<bar> \<le> 2 ^ 53"
    by (simp only: of_int_le_iff)
  then have d: "\<bar>i + (- e)\<bar> \<le> 2 ^ 53"
    by simp
  have sub: "js_sub (Fin (of_int i)) (Fin (of_int e)) = Fin (of_int i - of_int e)"
  proof (cases "e = 0")
    case True
    then show ?thesis by (simp add: js_sub_def)
  next
    case False
    then have "js_neg (Fin (of_int e)) = Fin (of_int (- e))" by simp
    then show ?thesis
      using js_add_int [OF d] by (simp add: js_sub_def)
  qed
  show ?thesis
    by (simp add: stats_def Let_def inc exp i e sub)
qed

text \<open>
  \<open>0.1 + 0.2\<close> lies halfway between two doubles and is rounded to the even one,
  above \<open>0.3\<close>; the difference to \<open>0.3\<close> is \<open>2\<^sup>-\<^sup>5\<^sup>4\<close>.
\<close>

lemma drift_sum:
  "round_double (double_0_1 + double_0_2) = Fin (5404319552844596 / 2 ^ 54)"
proof -
  have "round_half_even (\<bar>double_0_1 + double_0_2\<bar> / pow2 (- 2 - 52))
      = (if even (5404319552844595 :: int) then 5404319552844595 else 5404319552844595 + 1)"
    by (rule round_half_even_tie) (simp add: pow2_def double_0_1_def double_0_2_def)
  then have r: "round_half_even (\<bar>double_0_1 + double_0_2\<bar> / pow2 (- 2 - 52))
      = 5404319552844596"
    by simp
  show ?thesis
    by (subst round_double_eq [where e = "- 2", OF _ _ _ _ r])
      (simp_all add: pow2_def double_0_1_def double_0_2_def)
qed

lemma drift_income:
  "js_add (Fin double_0_1) (Fin double_0_2) = Fin (5404319552844596 / 2 ^ 54)"
proof -
  have "double_0_1 + double_0_2 \<noteq> 0"
    by (simp add: double_0_1_def double_0_2_def)
  then have "js_add (Fin double_0_1) (Fin double_0_2) = round_double (double_0_1 + double_0_2)"
    by simp
  also note drift_sum
  finally show ?thesis .
qed

lemma drift_balance:
  "js_sub (Fin (5404319552844596 / 2 ^ 54)) (Fin double_0_3) = Fin (1 / 2 ^ 54)"
proof -
  have "js_sub (Fin (5404319552844596 / 2 ^ 54)) (Fin double_0_3) = round_double (1 / 2 ^ 54)"
    by (simp add: js_sub_def double_0_3_def)
  also have "\<dots> = Fin (1 / 2 ^ 54)"
    using round_double_normal [of "- 54" "2 ^ 52"] by (simp add: pow2_def)
  finally show ?thesis .
qed

lemma overflow_sum: "js_add (Fin MAX_VALUE) (Fin MAX_VALUE) = PInf"
proof -
  have "MAX_VALUE + MAX_VALUE \<noteq> 0"
    by (simp add: MAX_VALUE_def)
  then have "js_add (Fin MAX_VALUE) (Fin MAX_VALUE) = round_double (MAX_VALUE + MAX_VALUE)"
    by simp
  also have "\<dots> = PInf"
    by (subst round_double_overflow) (simp_all add: pow2_def MAX_VALUE_def)
  finally show ?thesis .
qed

lemma stats_drift:
  "stats drift_transactions =
    \<lparr>balance = Fin (1 / 2 ^ 54), income = Fin (5404319552844596 / 2 ^ 54),
     expenses = Fin double_0_3\<rparr>"
proof -
  have inc: "reduce_amount [tx_of Income double_0_1, tx_of Income double_0_2]
      = Fin (5404319552844596 / 2 ^ 54)"
    by (simp only: reduce_amount_def foldl.simps tx_of_def Transaction.simps
        js_add_zero_double [OF doubles(1)] drift_income)
  have exp: "reduce_amount [tx_of Expense double_0_3] = Fin double_0_3"
    by (simp only: reduce_amount_def foldl.simps tx_of_def Transaction.simps
        js_add_zero_double [OF doubles(3)])
  have f: "filter (\<lambda>t. t_type t = Income) drift_transactions
      = [tx_of Income double_0_1, tx_of Income double_0_2]"
    "filter (\<lambda>t. t_type t = Expense) drift_transactions = [tx_of Expense double_0_3]"
    by (simp_all add: drift_transactions_def tx_of_def)
  show ?thesis
    by (simp only: stats_def Let_def f inc exp drift_balance)
qed

lemma stats_overflow:
  "stats overflow_transactions = \<lparr>balance = NaN, income = PInf, expenses = PInf\<rparr>"
proof -
  have inc: "reduce_amount [tx_of Income MAX_VALUE, tx_of Income MAX_VALUE] = PInf"
    by (simp only: reduce_amount_def foldl.simps tx_of_def Transaction.simps
        js_add_zero_double [OF doubles(4)] overflow_sum)
  have exp: "reduce_amount [tx_of Expense MAX_VALUE, tx_of Expense MAX_VALUE] = PInf"
    by (simp only: reduce_amount_def foldl.simps tx_of_def Transaction.simps
        js_add_zero_double [OF doubles(4)] overflow_sum)
  have f: "filter (\<lambda>t. t_type t = Income) overflow_transactions
      = [tx_of Income MAX_VALUE, tx_of Income MAX_VALUE]"
    "filter (\<lambda>t. t_type t = Expense) overflow_transactions
      = [tx_of Expense MAX_VALUE, tx_of Expense MAX_VALUE]"
    by (simp_all add: overflow_transactions_def tx_of_def)
  have "js_sub PInf PInf = NaN" by (simp add: js_sub_def)
  then show ?thesis
    by (simp only: stats_def Let_def f inc exp)
qed

text \<open>
  The income \<open>0.1\<close> and \<open>0.2\<close> and the expense \<open>0.3\<close>: the sum of the income amounts
  is \<open>0.1 + 0.2\<close> and the difference to the expenses is \<open>2\<^sup>-\<^sup>5\<^sup>5\<close>, the code computes the
  income \<open>0.30000000000000004\<close> and the balance \<open>2\<^sup>-\<^sup>5\<^sup>4\<close>. Of two incomes and two expenses
  of the largest double the income and the expenses are \<open>+\<infinity>\<close> and the balance is NaN,
  which is not equal to any number.
\<close>

theorem stats_exactness_counterexample:
  "stats drift_transactions =
     \<lparr>balance = Fin (1 / 2 ^ 54), income = Fin (5404319552844596 / 2 ^ 54),
      expenses = Fin double_0_3\<rparr>
   \<and> sum_list (map amount_value (filter (\<lambda>t. t_type t = Income) drift_transactions))
     = 5404319552844595 / 2 ^ 54 + 1 / 2 ^ 55
   \<and> sum_list (map amount_value (filter (\<lambda>t. t_type t = Income) drift_transactions))
       - sum_list (map amount_value (filter (\<lambda>t. t_type t = Expense) drift_transactions))
     = 1 / 2 ^ 55
   \<and> balance (stats drift_transactions)
     \<noteq> Fin (sum_list (map amount_value (filter (\<lambda>t. t_type t = Income) drift_transactions))
       - sum_list (map amount_value (filter (\<lambda>t. t_type t = Expense) drift_transactions)))
   \<and> stats overflow_transactions = \<lparr>balance = NaN, income = PInf, expenses = PInf\<rparr>"
proof -
  have "sum_list (map amount_value (filter (\<lambda>t. t_type t = Income) drift_transactions))
      = 5404319552844595 / 2 ^ 54 + 1 / 2 ^ 55"
    and "sum_list (map amount_value (filter (\<lambda>t. t_type t = Income) drift_transactions))
       - sum_list (map amount_value (filter (\<lambda>t. t_type t = Expense) drift_transactions))
      = 1 / 2 ^ 55"
    by (simp_all add: drift_transactions_def tx_of_def amount_value_def double_0_1_def
        double_0_2_def double_0_3_def)
  with stats_drift stats_overflow show ?thesis by simp
qed

text \<open>
  C1, amended. For every list of transactions the income and the expenses are the
  sums of the amounts of the transactions of type income and of type expense, added
  from left to right in double precision starting from \<open>0\<close>, and the balance is the
  double-precision difference of the two; for the empty list all three are \<open>0\<close>. When
  every amount is an integer and the absolute values of the amounts add up to at most
  \<open>2\<^sup>5\<^sup>3\<close>, the three values are the exact sums and the exact difference.
\<close>

theorem stats_totals:
  "income (stats ts)
     = foldl js_add (Fin 0) (map t_amount (filter (\<lambda>t. t_type t = Income) ts))
   \<and> expenses (stats ts)
     = foldl js_add (Fin 0) (map t_amount (filter (\<lambda>t. t_type t = Expense) ts))
   \<and> balance (stats ts) = js_sub (income (stats ts)) (expenses (stats ts))
   \<and> stats [] = \<lparr>balance = Fin 0, income = Fin 0, expenses = Fin 0\<rparr>
   \<and> (list_all (\<lambda>t. is_integer (t_amount t)) ts
        \<and> sum_list (map (\<lambda>t. \<bar>amount_value t\<bar>) ts) \<le> 2 ^ 53 \<longrightarrow>
      stats ts =
        \<lparr>balance = Fin (sum_list (map amount_value (filter (\<lambda>t. t_type t = Income) ts))
                        - sum_list (map amount_value (filter (\<lambda>t. t_type t = Expense) ts))),
         income = Fin (sum_list (map amount_value (filter (\<lambda>t. t_type t = Income) ts))),
         expenses = Fin (sum_list (map amount_value (filter (\<lambda>t. t_type t = Expense) ts)))\<rparr>)"
proof -
  have general:
    "income (stats ts)
       = foldl js_add (Fin 0) (map t_amount (filter (\<lambda>t. t_type t = Income) ts))"
    "expenses (stats ts)
       = foldl js_add (Fin 0) (map t_amount (filter (\<lambda>t. t_type t = Expense) ts))"
    "balance (stats ts) = js_sub (income (stats ts)) (expenses (stats ts))"
    "stats [] = \<lparr>balance = Fin 0, income = Fin 0, expenses = Fin 0\<rparr>"
    by (simp_all add: stats_def Let_def reduce_amount_foldl js_sub_def)
  show ?thesis
    using general stats_exact [of ts] by blast
qed

theorem stats_totals_witness:
  "list_all (\<lambda>t. is_integer (t_amount t)) [tx_salary, tx_food]
   \<and> sum_list (map (\<lambda>t. \<bar>amount_value t\<bar>) [tx_salary, tx_food]) \<le> 2 ^ 53
   \<and> stats [tx_salary, tx_food] = \<lparr>balance = Fin 60, income = Fin 100, expenses = Fin 40\<rparr>"
proof -
  have vals: "t_type tx_salary = Income" "t_type tx_food = Expense"
    "amount_value tx_salary = 100" "amount_value tx_food = 40"
    "is_integer (t_amount tx_salary)" "is_integer (t_amount tx_food)"
    by (simp_all add: tx_salary_def tx_food_def amount_value_def is_integer_def)
  show ?thesis
    using stats_totals [of "[tx_salary, tx_food]"] by (simp add: vals)
qed

section \<open>Budget progress\<close>

lemma percentage_example:
  "map percentage
     (budgetProgress [\<lparr>bg_id = ''g2'', bg_category = ''Food'', bg_limit = Fin 80\<rparr>] [tx_salary, tx_food])
   = [Fin 50]"
proof -
  have spent: "js_add (Fin 0) (Fin 40) = Fin 40"
    by (rule js_add_zero_double) (rule round_double_numeral, simp)
  have q: "js_div (Fin 40) (Fin 80) = Fin (1 / 2)"
    by (simp add: half)
  have p: "js_mul (Fin (1 / 2)) (Fin 100) = Fin 50"
    by (simp add: round_double_numeral)
  show ?thesis
    by (simp add: budgetProgress_def budget_spent_def Let_def reduce_amount_def
        tx_salary_def tx_food_def spent q p del: js_add.simps js_div.simps js_mul.simps)
qed

text \<open>
  The portfolio percentage has the guard the budget percentage lacks: it is \<open>0\<close>
  whenever the invested total is not positive.
\<close>

lemma investmentStats_guard:
  assumes "\<not> js_gt (totalInvested (investmentStats ivs)) (Fin 0)"
  shows "profitLossPercentage (investmentStats ivs) = Fin 0"
  using assms by (simp add: investmentStats_def Let_def)

text \<open>
  C2. The percentage of a budget is \<open>min (spent / limit * 100) 100\<close>, lies in
  \<open>[0, 100]\<close>, and is \<open>0\<close> when the limit is \<open>0\<close>. With the limit \<open>0\<close> the code
  computes NaN when nothing was spent in the category, and \<open>100\<close> when \<open>40\<close> were
  spent: in neither case \<open>0\<close>.
\<close>

theorem budgetProgress_zero_limit:
  "map percentage (budgetProgress [zero_limit_budget] []) = [NaN]
   \<and> map percentage (budgetProgress [zero_limit_budget] [tx_food]) = [Fin 100]
   \<and> \<not> is_finite NaN"
proof -
  have spent: "js_add (Fin 0) (Fin 40) = Fin 40"
    by (rule js_add_zero_double) (rule round_double_numeral, simp)
  show ?thesis
    by (simp add: budgetProgress_def budget_spent_def Let_def reduce_amount_def
        zero_limit_budget_def tx_food_def is_finite_def spent signed_inf_def is_inf_def
        is_zero_def del: js_add.simps)
qed

section \<open>Performance of an asset\<close>

lemma performance_example:
  "performance (free_asset\<lparr>i_purchasePrice := Fin 10, i_currentPrice := Fin 15\<rparr>) = Fin 50"
proof -
  have d: "js_sub (Fin 15) (Fin 10) = Fin 5"
    by (simp add: js_sub_def round_double_numeral)
  have q: "js_div (Fin 5) (Fin 10) = Fin (1 / 2)"
    by (simp add: half)
  have p: "js_mul (Fin (1 / 2)) (Fin 100) = Fin 50"
    by (simp add: round_double_numeral)
  show ?thesis
    by (simp add: performance_def free_asset_def d q p
        del: js_add.simps js_div.simps js_mul.simps)
qed

text \<open>
  C4. The performance of an asset is \<open>(currentPrice - purchasePrice) / purchasePrice * 100\<close>
  and a purchase price of \<open>0\<close> is special-cased, so that no infinity and no NaN reaches
  the display. The code has no such case: for an asset bought at \<open>0\<close> and priced at
  \<open>5\<close> the performance is \<open>+\<infinity>\<close>, and priced at \<open>0\<close> it is NaN.
\<close>

theorem performance_zero_purchasePrice:
  "performance free_asset = PInf
   \<and> performance (free_asset\<lparr>i_currentPrice := Fin 0\<rparr>) = NaN
   \<and> \<not> is_finite (performance free_asset)"
  by (simp add: performance_def free_asset_def js_sub_def is_finite_def signed_inf_def
      is_inf_def is_zero_def)

section \<open>Insight request\<close>

lemma slice_from_last20: "slice_from (- 20) xs = drop (length xs - 20) xs"
  by (auto simp: slice_from_def Let_def max_def intro: arg_cong [where f = "\<lambda>k. drop k xs"])

text \<open>
  Of more than twenty transactions the request holds the last twenty of the array,
  which are the twenty that were added first.
\<close>

lemma getFinancialInsights_last20:
  assumes "20 < length ts"
  shows "getFinancialInsights_summary ts = Some (map summarize (drop (length ts - 20) ts))"
  using assms slice_from_last20 [of ts] by (auto simp: getFinancialInsights_summary_def)

text \<open>
  C3. Of more than twenty transactions, stored newest first, the summary sent to the
  insight service consists of the twenty most recent ones, each reduced to type,
  amount, category and date. On the twenty-one transactions \<open>newest_first_21\<close> the
  summary of the code holds the transactions \<open>20\<close> down to \<open>1\<close>, the twenty oldest; the
  twenty most recent are the transactions \<open>21\<close> down to \<open>2\<close>.
\<close>

theorem getFinancialInsights_oldest:
  "map_option (map s_amount) (getFinancialInsights_summary newest_first_21)
     = Some (map Fin [20, 19, 18, 17, 16, 15, 14, 13, 12, 11, 10, 9, 8, 7, 6, 5, 4, 3, 2, 1])
   \<and> map t_amount (take 20 newest_first_21)
     = map Fin [21, 20, 19, 18, 17, 16, 15, 14, 13, 12, 11, 10, 9, 8, 7, 6, 5, 4, 3, 2]"
  by (simp add: getFinancialInsights_summary_def slice_from_def Let_def newest_first_21_def summarize_def
      tx_n_def)

section \<open>Filtered and sorted view\<close>

lemma str_includes_sublist: "str_includes s q = sublist q s"
  by (induction s) (simp_all add: sublist_Cons_right)

text \<open>
  Writing a letter small and writing it as a capital identify the same letters.
\<close>

lemma upper_lower: "upper_char (lower_char c) = upper_char c"
  by (simp add: upper_char_def lower_char_def)

lemma lower_upper: "lower_char (upper_char c) = lower_char c"
  by (simp add: upper_char_def lower_char_def)

lemma same_case_iff:
  "map lower_char w = map lower_char q \<longleftrightarrow> same_up_to_case w q"
proof
  assume "map lower_char w = map lower_char q"
  then have "map upper_char (map lower_char w) = map upper_char (map lower_char q)"
    by simp
  then show "same_up_to_case w q"
    by (simp add: same_up_to_case_def comp_def upper_lower)
next
  assume "same_up_to_case w q"
  then have "map lower_char (map upper_char w) = map lower_char (map upper_char q)"
    by (simp add: same_up_to_case_def)
  then show "map lower_char w = map lower_char q"
    by (simp add: comp_def lower_upper)
qed

lemma sublist_map_iff:
  "sublist (map f q) (map f s) \<longleftrightarrow> (\<exists>ps w ss. s = ps @ w @ ss \<and> map f w = map f q)"
proof
  assume "sublist (map f q) (map f s)"
  then obtain ps' ss' where "map f s = ps' @ map f q @ ss'"
    by (auto simp: sublist_def)
  then obtain ps r where s: "s = ps @ r" and "map f q @ ss' = map f r"
    unfolding map_eq_append_conv by blast
  then obtain w ss where "r = w @ ss" and "map f w = map f q"
    unfolding append_eq_map_conv by auto
  with s show "\<exists>ps w ss. s = ps @ w @ ss \<and> map f w = map f q" by blast
next
  assume "\<exists>ps w ss. s = ps @ w @ ss \<and> map f w = map f q"
  then obtain ps w ss where "s = ps @ w @ ss" and "map f w = map f q" by blast
  then have "map f s = map f ps @ map f q @ map f ss" by simp
  then show "sublist (map f q) (map f s)"
    unfolding sublist_def by blast
qed

lemma ci_contains_lower: "ci_contains s q \<longleftrightarrow> sublist (map lower_char q) (map lower_char s)"
  by (simp add: ci_contains_def sublist_map_iff same_case_iff)

lemma lc_contains_ascii:
  assumes "ascii s" and "ascii q"
  shows "lc_contains lc s q \<longleftrightarrow> ci_contains s q"
  using assms by (simp add: lc_contains_def toLowerCase_def ci_contains_lower)

lemma matchesQuery_lc:
  "matchesQuery lc q t = (lc_contains lc (t_description t) q \<or> lc_contains lc (t_category t) q)"
  by (simp add: matchesQuery_def lc_contains_def str_includes_sublist)

lemma matchesQuery_empty: "matchesQuery lc [] t"
  by (simp add: matchesQuery_lc lc_contains_def toLowerCase_def ascii_def)

lemma filter_ascii:
  assumes "ascii_text ts q"
  shows "filter (\<lambda>t. lc_contains lc (t_description t) q \<or> lc_contains lc (t_category t) q) ts
       = filter (\<lambda>t. ci_contains (t_description t) q \<or> ci_contains (t_category t) q) ts"
  using assms
  by (intro filter_cong refl) (auto simp: ascii_text_def list_all_iff lc_contains_ascii)

text \<open>The sort permutes its argument, whatever the comparator.\<close>

lemma mset_sort_insert: "mset (sort_insert c x ys) = add_mset x (mset ys)"
  by (induction ys) simp_all

lemma mset_array_sort: "mset (array_sort c xs) = mset xs"
  by (induction xs) (simp_all add: array_sort_def mset_sort_insert)

text \<open>On valid dates the sort is the insertion sort of the library on the negated time.\<close>

lemma sort_insert_insort:
  assumes "getTime (t_date x) \<noteq> None"
    and "list_all (\<lambda>t. getTime (t_date t) \<noteq> None) ys"
  shows "sort_insert (compareDates getTime) x ys = insort_key (date_key getTime) x ys"
  using assms
  by (induction ys)
    (auto simp: sortCompare_def compareDates_def date_key_def split: option.splits)

lemma array_sort_sort_key:
  assumes "valid_dates getTime xs"
  shows "array_sort (compareDates getTime) xs = sort_key (date_key getTime) xs"
  using assms
proof (induction xs)
  case Nil
  show ?case by (simp add: array_sort_def)
next
  case (Cons x xs)
  have v: "list_all (\<lambda>t. getTime (t_date t) \<noteq> None) (sort_key (date_key getTime) xs)"
    using Cons.prems by (simp add: valid_dates_def list_all_iff)
  have "array_sort (compareDates getTime) (x # xs) =
        sort_insert (compareDates getTime) x (array_sort (compareDates getTime) xs)"
    by (simp add: array_sort_def)
  also have "\<dots> = sort_insert (compareDates getTime) x (sort_key (date_key getTime) xs)"
    using Cons by (simp add: valid_dates_def)
  also have "\<dots> = insort_key (date_key getTime) x (sort_key (date_key getTime) xs)"
    using Cons.prems v by (intro sort_insert_insort) (simp_all add: valid_dates_def)
  finally show ?case by simp
qed

lemma valid_dates_filter:
  assumes "valid_dates getTime ts"
  shows "valid_dates getTime (filter P ts)"
  using assms by (simp add: valid_dates_def list_all_iff)

lemma valid_dates_sort_key:
  assumes "valid_dates getTime ts"
  shows "valid_dates getTime (sort_key f ts)"
  using assms by (simp add: valid_dates_def list_all_iff)

lemma sorted_date_ge:
  assumes "valid_dates getTime xs" and "sorted (map (date_key getTime) xs)"
  shows "sorted_wrt (date_ge getTime) xs"
proof -
  have "sorted_wrt (\<lambda>a b. date_key getTime a \<le> date_key getTime b) xs"
    using assms(2) by (simp add: sorted_map)
  then show ?thesis
  proof (rule sorted_wrt_mono_rel [rotated])
    fix a b
    assume "a \<in> set xs" and "b \<in> set xs" and "date_key getTime a \<le> date_key getTime b"
    then show "date_ge getTime a b"
      using assms(1)
      by (auto simp: valid_dates_def list_all_iff date_key_def date_ge_def split: option.splits)
  qed
qed

lemma filter_date_some:
  assumes "valid_dates getTime xs"
  shows "filter (\<lambda>t. getTime (t_date t) = Some v) xs
       = filter (\<lambda>t. date_key getTime t = - v) xs"
  using assms
  by (intro filter_cong refl)
    (auto simp: valid_dates_def list_all_iff date_key_def split: option.splits)

lemma filter_date_none:
  assumes "valid_dates getTime xs"
  shows "filter (\<lambda>t. getTime (t_date t) = None) xs = []"
  using assms by (auto simp: valid_dates_def list_all_iff filter_empty_conv)

lemma sort_key_stable_dates:
  assumes "valid_dates getTime xs"
  shows "filter (\<lambda>t. getTime (t_date t) = d) (sort_key (date_key getTime) xs)
       = filter (\<lambda>t. getTime (t_date t) = d) xs"
proof (cases d)
  case None
  then show ?thesis
    using assms valid_dates_sort_key [OF assms, of "date_key getTime"]
    by (simp add: filter_date_none)
next
  case (Some w)
  then show ?thesis
    using assms valid_dates_sort_key [OF assms, of "date_key getTime"]
    by (simp add: filter_date_some sort_key_stable)
qed

text \<open>
  The description \<open>A\<Sigma>\<close> contains the query \<open>\<Sigma>\<close>, letter for letter. \<open>toLowerCase\<close>
  writes the capital sigma at the end of a word as the final sigma and the capital
  sigma that stands alone as the small sigma, so that the lower-cased description
  does not contain the lower-cased query, and the view of the code is empty.
\<close>

theorem case_insensitive_counterexample:
  "sublist capital_sigma (t_description tx_sigma)
   \<and> ci_contains (t_description tx_sigma) capital_sigma
   \<and> filteredTransactions example_getTime sigma_toLowerCase [tx_sigma] capital_sigma = []"
proof -
  have d: "t_description tx_sigma = [CHR ''A''] @ capital_sigma @ []"
    by (simp add: tx_sigma_def)
  have 1: "sublist capital_sigma (t_description tx_sigma)"
    unfolding d by (rule sublist_appendI)
  have "same_up_to_case capital_sigma capital_sigma"
    by (simp add: same_up_to_case_def)
  with d have 2: "ci_contains (t_description tx_sigma) capital_sigma"
    unfolding ci_contains_def by blast
  have 3: "filteredTransactions example_getTime sigma_toLowerCase [tx_sigma] capital_sigma = []"
    by (simp add: filteredTransactions_def matchesQuery_def toLowerCase_def ascii_def
        sigma_toLowerCase_def capital_sigma_def small_sigma_def final_sigma_def tx_sigma_def
        lower_char_def array_sort_def)
  from 1 2 3 show ?thesis by simp
qed

text \<open>
  C5, amended. The filtered view is a permutation of the transactions whose
  lower-cased description or lower-cased category contains the lower-cased query. On
  ASCII text these are the transactions whose description or category contains the
  query as a case-insensitive substring. A query that matches no transaction gives
  the empty view, the empty query gives all transactions. When every date is one that
  \<open>getTime\<close> reads, the view is sorted by date descending, and the transactions of one
  date keep the order that they have in the collection.
\<close>

theorem filteredTransactions_view:
  "mset (filteredTransactions getTime lc ts q)
     = mset (filter (\<lambda>t. lc_contains lc (t_description t) q \<or> lc_contains lc (t_category t) q) ts)
   \<and> (ascii_text ts q \<longrightarrow>
        mset (filteredTransactions getTime lc ts q)
          = mset (filter (\<lambda>t. ci_contains (t_description t) q \<or> ci_contains (t_category t) q) ts))
   \<and> (list_all (\<lambda>t. \<not> (lc_contains lc (t_description t) q \<or> lc_contains lc (t_category t) q)) ts
        \<longrightarrow> filteredTransactions getTime lc ts q = [])
   \<and> mset (filteredTransactions getTime lc ts []) = mset ts
   \<and> (valid_dates getTime ts \<longrightarrow>
        sorted_wrt (date_ge getTime) (filteredTransactions getTime lc ts q)
        \<and> sorted_wrt (date_ge getTime) (filteredTransactions getTime lc ts [])
        \<and> filter (\<lambda>t. getTime (t_date t) = d) (filteredTransactions getTime lc ts q)
          = filter (\<lambda>t. getTime (t_date t) = d)
              (filter (\<lambda>t. lc_contains lc (t_description t) q \<or> lc_contains lc (t_category t) q) ts)
        \<and> filter (\<lambda>t. getTime (t_date t) = d) (filteredTransactions getTime lc ts [])
          = filter (\<lambda>t. getTime (t_date t) = d) ts)"
proof -
  let ?m = "\<lambda>t. lc_contains lc (t_description t) q \<or> lc_contains lc (t_category t) q"
  have m: "matchesQuery lc q = ?m"
    by (rule ext) (rule matchesQuery_lc)
  have all: "filter (matchesQuery lc []) ts = ts"
    by (simp add: matchesQuery_empty)
  have 1: "mset (filteredTransactions getTime lc ts q) = mset (filter ?m ts)"
    by (simp add: filteredTransactions_def mset_array_sort m)
  have 2: "mset (filteredTransactions getTime lc ts q)
      = mset (filter (\<lambda>t. ci_contains (t_description t) q \<or> ci_contains (t_category t) q) ts)"
    if "ascii_text ts q"
    using 1 filter_ascii [OF that, of lc] by simp
  have 3: "filteredTransactions getTime lc ts q = []" if "list_all (\<lambda>t. \<not> ?m t) ts"
  proof -
    have "filter ?m ts = []"
      using that by (simp add: filter_empty_conv list_all_iff)
    then show ?thesis
      by (simp add: filteredTransactions_def m array_sort_def)
  qed
  have 4: "mset (filteredTransactions getTime lc ts []) = mset ts"
    by (simp add: filteredTransactions_def mset_array_sort all)
  have 5: "sorted_wrt (date_ge getTime) (filteredTransactions getTime lc ts q)
        \<and> filter (\<lambda>t. getTime (t_date t) = d) (filteredTransactions getTime lc ts q)
          = filter (\<lambda>t. getTime (t_date t) = d) (filter ?m ts)" if v: "valid_dates getTime ts"
  proof -
    have vf: "valid_dates getTime (filter ?m ts)"
      using v by (rule valid_dates_filter)
    have eq: "filteredTransactions getTime lc ts q = sort_key (date_key getTime) (filter ?m ts)"
      using vf by (simp add: filteredTransactions_def m array_sort_sort_key)
    show ?thesis
      using vf valid_dates_sort_key [OF vf, of "date_key getTime"]
      by (simp add: eq sorted_date_ge sort_key_stable_dates)
  qed
  have 6: "sorted_wrt (date_ge getTime) (filteredTransactions getTime lc ts [])
        \<and> filter (\<lambda>t. getTime (t_date t) = d) (filteredTransactions getTime lc ts [])
          = filter (\<lambda>t. getTime (t_date t) = d) ts" if v: "valid_dates getTime ts"
  proof -
    have eq: "filteredTransactions getTime lc ts [] = sort_key (date_key getTime) ts"
      using v by (simp add: filteredTransactions_def all array_sort_sort_key)
    show ?thesis
      using v valid_dates_sort_key [OF v, of "date_key getTime"]
      by (simp add: eq sorted_date_ge sort_key_stable_dates)
  qed
  show ?thesis
    using 1 2 3 4 5 6 by blast
qed

theorem filteredTransactions_view_witness:
  "ascii_text [tx_salary, tx_food] ''L''
   \<and> valid_dates example_getTime [tx_salary, tx_food]
   \<and> filteredTransactions example_getTime sigma_toLowerCase [tx_salary, tx_food] ''L''
     = [tx_food, tx_salary]
   \<and> mset [tx_food, tx_salary]
     = mset (filter (\<lambda>t. ci_contains (t_description t) ''L'' \<or> ci_contains (t_category t) ''L'')
         [tx_salary, tx_food])
   \<and> sorted_wrt (date_ge example_getTime)
       (filteredTransactions example_getTime sigma_toLowerCase [tx_salary, tx_food] ''L'')
   \<and> list_all
       (\<lambda>t. \<not> (lc_contains sigma_toLowerCase (t_description t) ''Rent''
              \<or> lc_contains sigma_toLowerCase (t_category t) ''Rent''))
       [tx_salary, tx_food]
   \<and> filteredTransactions example_getTime sigma_toLowerCase [tx_salary, tx_food] ''Rent'' = []"
proof -
  have a: "ascii_text [tx_salary, tx_food] ''L''"
    by (simp add: ascii_text_def ascii_def tx_salary_def tx_food_def)
  have v: "valid_dates example_getTime [tx_salary, tx_food]"
    by (simp add: valid_dates_def tx_salary_def tx_food_def example_getTime_def)
  have e: "filteredTransactions example_getTime sigma_toLowerCase [tx_salary, tx_food] ''L''
      = [tx_food, tx_salary]"
    by (simp add: filteredTransactions_def matchesQuery_def toLowerCase_def ascii_def
        lower_char_def array_sort_def tx_salary_def tx_food_def compareDates_def
        sortCompare_def example_getTime_def)
  have n: "list_all
      (\<lambda>t. \<not> (lc_contains sigma_toLowerCase (t_description t) ''Rent''
             \<or> lc_contains sigma_toLowerCase (t_category t) ''Rent''))
      [tx_salary, tx_food]"
    by (simp add: lc_contains_def toLowerCase_def ascii_def lower_char_def tx_salary_def
        tx_food_def sublist_Cons_right)
  note L = filteredTransactions_view [of example_getTime sigma_toLowerCase
      "[tx_salary, tx_food]" "''L''" None]
  note R = filteredTransactions_view [of example_getTime sigma_toLowerCase
      "[tx_salary, tx_food]" "''Rent''" None]
  from L a have 1: "mset (filteredTransactions example_getTime sigma_toLowerCase
        [tx_salary, tx_food] ''L'')
      = mset (filter (\<lambda>t. ci_contains (t_description t) ''L'' \<or> ci_contains (t_category t) ''L'')
          [tx_salary, tx_food])"
    by blast
  from L v have 2: "sorted_wrt (date_ge example_getTime)
      (filteredTransactions example_getTime sigma_toLowerCase [tx_salary, tx_food] ''L'')"
    by blast
  from R n have 3:
    "filteredTransactions example_getTime sigma_toLowerCase [tx_salary, tx_food] ''Rent'' = []"
    by blast
  from 1 have 4: "mset [tx_food, tx_salary]
      = mset (filter (\<lambda>t. ci_contains (t_description t) ''L'' \<or> ci_contains (t_category t) ''L'')
          [tx_salary, tx_food])"
    by (simp only: e)
  from a v e 4 2 n 3 show ?thesis
    by (intro conjI)
qed

section \<open>Adding and deleting transactions\<close>

lemma filter_fresh:
  assumes "i \<notin> set (map t_id ts)"
  shows "filter (\<lambda>t. t_id t \<noteq> i) ts = ts"
  using assms by (induction ts) auto

lemma handleAddTransaction_cases:
  "transactions (handleAddTransaction env s) = transactions s
   \<or> transactions (handleAddTransaction env s)
       = new_transaction env (newTx s) (the (f_amount (newTx s))) (the (f_description (newTx s)))
         # transactions s"
  by (simp add: handleAddTransaction_def split: option.splits)

lemma not_accepted:
  assumes "\<not> accepts s"
  shows "handleAddTransaction env s = s"
  using assms
  by (auto simp: accepts_def handleAddTransaction_def falsy_amount_def falsy_str_def
      split: option.splits)

lemma accepted:
  assumes "accepts s"
  obtains a d where "f_amount (newTx s) = Some a" and "f_description (newTx s) = Some d"
    and "handleAddTransaction env s =
      s\<lparr>transactions := new_transaction env (newTx s) a d # transactions s,
        isModalOpen := False, newTx := blank_form (today env)\<rparr>"
  using assms
  by (auto simp: accepts_def handleAddTransaction_def falsy_amount_def falsy_str_def
      split: option.splits)

lemma setNewTx_transactions: "transactions (setNewTx e s) = transactions s"
  by (cases e) simp_all

text \<open>The ids of the collection of a run are among the ids that were issued.\<close>

lemma run_ids:
  assumes "run I s"
  shows "set (map t_id (transactions s)) \<subseteq> I"
  using assms
proof (induction rule: run.induct)
  case (load s day I)
  then show ?case by simp
next
  case (input I s e)
  then show ?case by (simp add: setNewTx_transactions)
next
  case (added I s env s')
  from added.hyps(3) have s': "s' = handleAddTransaction env s"
    by (simp add: add_step_def)
  have "set (map t_id (transactions s')) \<subseteq> insert (uuid env) (set (map t_id (transactions s)))"
    unfolding s' using handleAddTransaction_cases [of env s]
    by (auto simp: new_transaction_def)
  with added.IH show ?case by blast
next
  case (rejected I s env)
  then show ?case by (simp add: not_accepted)
next
  case (deleted I s i)
  then show ?case by (auto simp: deleteTransaction_def)
qed

lemma fill_transactions: "transactions (fill es s) = transactions s"
  by (induction es arbitrary: s) (simp_all add: setNewTx_transactions)

lemma run_fill:
  assumes "run I s" and "inputs_ok s es"
  shows "run I (fill es s)"
  using assms by (induction es arbitrary: s) (auto intro: run.input)

lemma seeded_names:
  "[] \<notin> set (map c_name DEFAULT_CATEGORIES)"
  "c_name (DEFAULT_CATEGORIES ! 0) = ''Food & Dining''"
  "''Food & Dining'' \<in> set (map c_name DEFAULT_CATEGORIES)"
  by (simp_all add: DEFAULT_CATEGORIES_def)

lemma form_input_category:
  assumes "form_input s (SetCategory c)"
  shows "c \<in> set (map c_name DEFAULT_CATEGORIES)"
  using assms by auto

text \<open>
  The category of a form that was filled through its controls is a seeded category,
  and the first one when the category was left alone; its date is the day of the
  blank form when the date was left alone.
\<close>

lemma fill_category:
  assumes "inputs_ok s es" and "f_category (newTx s) = Some c0"
    and "c0 \<in> set (map c_name DEFAULT_CATEGORIES)"
  shows "\<exists>c. f_category (newTx (fill es s)) = Some c
    \<and> c \<in> set (map c_name DEFAULT_CATEGORIES)
    \<and> (list_all (\<lambda>e. \<not> is_SetCategory e) es \<longrightarrow> c = c0)"
  using assms
proof (induction es arbitrary: s c0)
  case Nil
  then show ?case by simp
next
  case (Cons e es)
  show ?case
  proof (cases e)
    case (SetCategory c)
    with Cons.prems have "c \<in> set (map c_name DEFAULT_CATEGORIES)"
      using form_input_category [of s c] by simp
    with Cons.IH [of "setNewTx e s" c] Cons.prems SetCategory show ?thesis
      by auto
  qed (use Cons.IH [of "setNewTx e s" c0] Cons.prems in auto)
qed

lemma fill_date:
  assumes "f_date (newTx s) = Some d0"
  shows "\<exists>d. f_date (newTx (fill es s)) = Some d
    \<and> (list_all (\<lambda>e. \<not> is_SetDate e) es \<longrightarrow> d = d0)"
  using assms
proof (induction es arbitrary: s d0)
  case Nil
  then show ?case by simp
next
  case (Cons e es)
  show ?case
  proof (cases e)
    case (SetDate d)
    with Cons.IH [of "setNewTx e s" d] show ?thesis by auto
  qed (use Cons.IH [of "setNewTx e s" d0] Cons.prems in auto)
qed

text \<open>Every state of a run is a blank form filled through the controls.\<close>

lemma inputs_ok_append:
  "inputs_ok s (es @ [e]) = (inputs_ok s es \<and> form_input (fill es s) e)"
  by (induction es arbitrary: s) simp_all

lemma fill_append: "fill (es @ [e]) s = setNewTx e (fill es s)"
  by (induction es arbitrary: s) simp_all

lemma form_input_newTx:
  assumes "newTx s = newTx s'"
  shows "form_input s e = form_input s' e"
  using assms by (cases e) simp_all

lemma setNewTx_delete:
  "setNewTx e (deleteTransaction i s) = deleteTransaction i (setNewTx e s)"
  by (cases e) (simp_all add: deleteTransaction_def)

lemma fill_delete:
  "fill es (deleteTransaction i s) = deleteTransaction i (fill es s)"
  by (induction es arbitrary: s) (simp_all add: setNewTx_delete)

lemma inputs_ok_delete:
  "inputs_ok (deleteTransaction i s) es = inputs_ok s es"
proof (induction es arbitrary: s)
  case Nil
  show ?case by simp
next
  case (Cons e es)
  have "form_input (deleteTransaction i s) e = form_input s e"
    by (rule form_input_newTx) (simp add: deleteTransaction_def)
  with Cons [of "setNewTx e s"] show ?case by (simp add: setNewTx_delete)
qed

lemma run_filled:
  assumes "run I s"
  shows "\<exists>s0 day es. run I s0 \<and> newTx s0 = blank_form day \<and> inputs_ok s0 es \<and> s = fill es s0"
  using assms
proof (induction rule: run.induct)
  case (load s day I)
  then have "run I s \<and> newTx s = blank_form day \<and> inputs_ok s [] \<and> s = fill [] s"
    by (simp add: run.load)
  then show ?case by blast
next
  case (input I s e)
  then obtain s0 day es where "run I s0" "newTx s0 = blank_form day" "inputs_ok s0 es"
    "s = fill es s0" by blast
  with input.hyps(2) have "run I s0 \<and> newTx s0 = blank_form day \<and> inputs_ok s0 (es @ [e])
      \<and> setNewTx e s = fill (es @ [e]) s0"
    by (simp add: inputs_ok_append fill_append)
  then show ?case by blast
next
  case (added I s env s')
  from accepted [OF added.hyps(2), of env] obtain a d
    where "handleAddTransaction env s =
        s\<lparr>transactions := new_transaction env (newTx s) a d # transactions s,
          isModalOpen := False, newTx := blank_form (today env)\<rparr>"
    by blast
  with added.hyps(3) have "newTx s' = blank_form (today env)"
    by (simp add: add_step_def)
  moreover have "run (insert (uuid env) I) s'"
    using added.hyps by (rule run.added)
  ultimately have "run (insert (uuid env) I) s' \<and> newTx s' = blank_form (today env)
      \<and> inputs_ok s' [] \<and> s' = fill [] s'"
    by simp
  then show ?case by blast
next
  case (rejected I s env)
  then show ?case by (simp add: not_accepted)
next
  case (deleted I s i)
  then obtain s0 day es where "run I s0" "newTx s0 = blank_form day" "inputs_ok s0 es"
    "s = fill es s0" by blast
  then have "run I (deleteTransaction i s0) \<and> newTx (deleteTransaction i s0) = blank_form day
      \<and> inputs_ok (deleteTransaction i s0) es
      \<and> deleteTransaction i s = fill es (deleteTransaction i s0)"
    using run.deleted [of I s0 i]
    by (simp add: inputs_ok_delete fill_delete) (simp add: deleteTransaction_def)
  then show ?case by blast
qed

lemma example_loaded: "run {''id-1''} loaded_state"
  by (rule run.load [where day = "''2024-01-03''"])
    (simp_all add: loaded_state_def tx_salary_def)

lemma example_run: "run {''id-1''} (fill lunch_edits loaded_state)"
proof -
  have "run {''id-1''} loaded_state"
    by (rule run.load [where day = "''2024-01-03''"])
      (simp_all add: loaded_state_def tx_salary_def)
  moreover have "inputs_ok loaded_state lunch_edits"
    by (simp add: lunch_edits_def)
  ultimately show ?thesis by (rule run_fill)
qed

lemma example_filled:
  "fill lunch_edits loaded_state =
    loaded_state\<lparr>newTx := (blank_form ''2024-01-03'')
      \<lparr>f_amount := Some (Fin 40), f_description := Some ''Lunch''\<rparr>\<rparr>"
  by (simp add: lunch_edits_def loaded_state_def)

lemma example_accepts: "accepts (fill lunch_edits loaded_state)"
  by (simp add: example_filled accepts_def falsy_amount_def falsy_str_def)

lemma example_add_step:
  "add_step {''id-1''} (fill lunch_edits loaded_state) example_env
    (handleAddTransaction example_env (fill lunch_edits loaded_state))"
  by (simp add: add_step_def example_env_def)

text \<open>
  C6. In every run, the id that the handler draws is not in the collection, and
  deleting by that id after the addition gives back the collection as it was before
  the addition, contents and order.
\<close>

theorem add_then_delete:
  assumes "run I s" and "add_step I s env s'"
  shows "uuid env \<notin> set (map t_id (transactions s))
    \<and> transactions (deleteTransaction (uuid env) s') = transactions s"
proof -
  have fresh: "uuid env \<notin> set (map t_id (transactions s))"
    using run_ids [OF assms(1)] assms(2) by (auto simp: add_step_def)
  have "transactions (deleteTransaction (uuid env) (handleAddTransaction env s))
      = transactions s"
    using handleAddTransaction_cases [of env s] filter_fresh [OF fresh]
    by (auto simp: deleteTransaction_def new_transaction_def)
  with fresh assms(2) show ?thesis by (simp add: add_step_def)
qed

theorem add_then_delete_witness:
  "run {''id-1''} (fill lunch_edits loaded_state)
   \<and> add_step {''id-1''} (fill lunch_edits loaded_state) example_env
        (handleAddTransaction example_env (fill lunch_edits loaded_state))
   \<and> transactions (handleAddTransaction example_env (fill lunch_edits loaded_state))
        \<noteq> transactions (fill lunch_edits loaded_state)
   \<and> uuid example_env \<notin> set (map t_id (transactions (fill lunch_edits loaded_state)))
   \<and> transactions (deleteTransaction (uuid example_env)
        (handleAddTransaction example_env (fill lunch_edits loaded_state)))
      = transactions (fill lunch_edits loaded_state)"
proof -
  have "transactions (handleAddTransaction example_env (fill lunch_edits loaded_state))
      \<noteq> transactions (fill lunch_edits loaded_state)"
    by (simp add: example_filled handleAddTransaction_def)
  with add_then_delete [OF example_run example_add_step] example_run example_add_step
  show ?thesis by simp
qed

text \<open>
  C7. When the amount of the form is absent, zero or NaN, or its description is
  absent or empty, the handler changes nothing: the state it returns is the state it
  was given, and it has no other result.
\<close>

theorem handleAddTransaction_rejects:
  assumes "falsy_amount (f_amount (newTx s)) \<or> falsy_str (f_description (newTx s))"
  shows "handleAddTransaction env s = s"
  using assms
  by (auto simp: handleAddTransaction_def falsy_amount_def falsy_str_def split: option.splits)

theorem handleAddTransaction_rejects_witness:
  "falsy_amount (f_amount (newTx zero_amount_state))
   \<and> handleAddTransaction example_env zero_amount_state = zero_amount_state
   \<and> falsy_str (f_description (newTx empty_description_state))
   \<and> handleAddTransaction example_env empty_description_state = empty_description_state"
proof -
  have a: "falsy_amount (f_amount (newTx zero_amount_state))"
    by (simp add: zero_amount_state_def falsy_amount_def)
  have d: "falsy_str (f_description (newTx empty_description_state))"
    by (simp add: empty_description_state_def falsy_str_def)
  show ?thesis
    using a d
      handleAddTransaction_rejects [of zero_amount_state example_env]
      handleAddTransaction_rejects [of empty_description_state example_env]
    by simp
qed

text \<open>
  C8. In every run, when the form that was filled through its controls passes the
  validation, the handler puts one new transaction in front of the collection. Its
  id is the one that was drawn, which no transaction of the collection has, so that
  distinct ids stay distinct; its amount, description, type and category are those of
  the form. Its date is the day of the form when the user left the date alone, and
  today when the user emptied it. Its category is the first seeded category,
  \<open>Food & Dining\<close>, when the user left the category alone.
\<close>

theorem handleAddTransaction_prepends:
  assumes "run I s0" and "newTx s0 = blank_form day" and "inputs_ok s0 es"
    and "accepts (fill es s0)" and "add_step I (fill es s0) env s'"
  shows "\<exists>t. transactions s' = t # transactions s0
    \<and> t_id t = uuid env
    \<and> uuid env \<notin> set (map t_id (transactions s0))
    \<and> (distinct (map t_id (transactions s0)) \<longrightarrow> distinct (map t_id (transactions s')))
    \<and> Some (t_amount t) = f_amount (newTx (fill es s0))
    \<and> Some (t_description t) = f_description (newTx (fill es s0))
    \<and> t_type t = f_type (newTx (fill es s0))
    \<and> (list_all (\<lambda>e. \<not> is_SetDate e) es \<and> day \<noteq> [] \<longrightarrow> t_date t = day)
    \<and> (f_date (newTx (fill es s0)) = Some [] \<longrightarrow> t_date t = today env)
    \<and> (list_all (\<lambda>e. \<not> is_SetCategory e) es \<longrightarrow>
          t_category t = c_name (DEFAULT_CATEGORIES ! 0) \<and> t_category t = ''Food & Dining'')
    \<and> Some (t_category t) = f_category (newTx (fill es s0))"
proof -
  let ?s = "fill es s0"
  have s': "s' = handleAddTransaction env ?s" and new: "uuid env \<notin> I"
    using assms(5) by (simp_all add: add_step_def)
  have fresh: "uuid env \<notin> set (map t_id (transactions s0))"
    using run_ids [OF assms(1)] new by auto
  from accepted [OF assms(4), of env] obtain a d
    where a: "f_amount (newTx ?s) = Some a" and d: "f_description (newTx ?s) = Some d"
      and h: "handleAddTransaction env ?s =
        ?s\<lparr>transactions := new_transaction env (newTx ?s) a d # transactions ?s,
           isModalOpen := False, newTx := blank_form (today env)\<rparr>"
    by blast
  have c0: "f_category (newTx s0) = Some ''Food & Dining''"
    and d0: "f_date (newTx s0) = Some day"
    using assms(2) by (simp_all add: blank_form_def seeded_names)
  from fill_category [OF assms(3) c0 seeded_names(3)] obtain c
    where c: "f_category (newTx ?s) = Some c" "c \<in> set (map c_name DEFAULT_CATEGORIES)"
      "list_all (\<lambda>e. \<not> is_SetCategory e) es \<longrightarrow> c = ''Food & Dining''"
    by blast
  have cne: "c \<noteq> []" using c(2) seeded_names(1) by metis
  from fill_date [OF d0, of es] obtain dt
    where dt: "f_date (newTx ?s) = Some dt" "list_all (\<lambda>e. \<not> is_SetDate e) es \<longrightarrow> dt = day"
    by blast
  let ?t = "new_transaction env (newTx ?s) a d"
  have t: "transactions s' = ?t # transactions s0"
    by (simp add: s' h fill_transactions)
  have cat: "t_category ?t = c"
    using c cne by (simp add: new_transaction_def or_default_def falsy_str_def)
  have date: "t_date ?t = (if dt = [] then today env else dt)"
    using dt by (simp add: new_transaction_def or_default_def falsy_str_def)
  have rest: "t_id ?t = uuid env" "t_amount ?t = a" "t_description ?t = d"
    "t_type ?t = f_type (newTx ?s)"
    by (simp_all add: new_transaction_def)
  have dist: "distinct (map t_id (transactions s0)) \<longrightarrow> distinct (map t_id (transactions s'))"
    using fresh by (simp add: t rest(1))
  have day: "list_all (\<lambda>e. \<not> is_SetDate e) es \<and> day \<noteq> [] \<longrightarrow> t_date ?t = day"
    using dt(2) by (simp add: date)
  have cleared: "f_date (newTx ?s) = Some [] \<longrightarrow> t_date ?t = today env"
    using dt(1) by (simp add: date)
  have first: "list_all (\<lambda>e. \<not> is_SetCategory e) es \<longrightarrow>
      t_category ?t = c_name (DEFAULT_CATEGORIES ! 0) \<and> t_category ?t = ''Food & Dining''"
    using c(3) by (simp add: cat seeded_names(2))
  have "transactions s' = ?t # transactions s0
    \<and> t_id ?t = uuid env
    \<and> uuid env \<notin> set (map t_id (transactions s0))
    \<and> (distinct (map t_id (transactions s0)) \<longrightarrow> distinct (map t_id (transactions s')))
    \<and> Some (t_amount ?t) = f_amount (newTx ?s)
    \<and> Some (t_description ?t) = f_description (newTx ?s)
    \<and> t_type ?t = f_type (newTx ?s)
    \<and> (list_all (\<lambda>e. \<not> is_SetDate e) es \<and> day \<noteq> [] \<longrightarrow> t_date ?t = day)
    \<and> (f_date (newTx ?s) = Some [] \<longrightarrow> t_date ?t = today env)
    \<and> (list_all (\<lambda>e. \<not> is_SetCategory e) es \<longrightarrow>
          t_category ?t = c_name (DEFAULT_CATEGORIES ! 0) \<and> t_category ?t = ''Food & Dining'')
    \<and> Some (t_category ?t) = f_category (newTx ?s)"
    using t rest fresh dist a d day cleared first cat c(1)
    by (intro conjI) (simp_all add: seeded_names(2))
  then show ?thesis by (rule exI)
qed

theorem handleAddTransaction_prepends_witness:
  "run {''id-1''} loaded_state
   \<and> newTx loaded_state = blank_form ''2024-01-03''
   \<and> inputs_ok loaded_state lunch_edits
   \<and> accepts (fill lunch_edits loaded_state)
   \<and> add_step {''id-1''} (fill lunch_edits loaded_state) example_env
        (handleAddTransaction example_env (fill lunch_edits loaded_state))
   \<and> list_all (\<lambda>e. \<not> is_SetDate e) lunch_edits
   \<and> list_all (\<lambda>e. \<not> is_SetCategory e) lunch_edits
   \<and> transactions (handleAddTransaction example_env (fill lunch_edits loaded_state))
      = [\<lparr>t_id = ''id-2'', t_date = ''2024-01-03'', t_amount = Fin 40,
          t_category = ''Food & Dining'', t_description = ''Lunch'', t_type = Expense\<rparr>,
         tx_salary]"
proof -
  have b: "newTx loaded_state = blank_form ''2024-01-03''"
    by (simp add: loaded_state_def)
  have i: "inputs_ok loaded_state lunch_edits"
    by (simp add: lunch_edits_def)
  have u: "list_all (\<lambda>e. \<not> is_SetDate e) lunch_edits"
    "list_all (\<lambda>e. \<not> is_SetCategory e) lunch_edits"
    by (simp_all add: lunch_edits_def)
  from handleAddTransaction_prepends [OF example_loaded b i example_accepts example_add_step]
  obtain t where t:
    "transactions (handleAddTransaction example_env (fill lunch_edits loaded_state))
      = t # transactions loaded_state"
    "t_id t = uuid example_env"
    "Some (t_amount t) = f_amount (newTx (fill lunch_edits loaded_state))"
    "Some (t_description t) = f_description (newTx (fill lunch_edits loaded_state))"
    "t_type t = f_type (newTx (fill lunch_edits loaded_state))"
    "list_all (\<lambda>e. \<not> is_SetDate e) lunch_edits \<and> ''2024-01-03'' \<noteq> [] \<longrightarrow> t_date t = ''2024-01-03''"
    "list_all (\<lambda>e. \<not> is_SetCategory e) lunch_edits \<longrightarrow> t_category t = ''Food & Dining''"
    by blast
  from t(6) u(1) have date: "t_date t = ''2024-01-03''" by simp
  from t(7) u(2) have cat: "t_category t = ''Food & Dining''" by simp
  have "t = \<lparr>t_id = ''id-2'', t_date = ''2024-01-03'', t_amount = Fin 40,
          t_category = ''Food & Dining'', t_description = ''Lunch'', t_type = Expense\<rparr>"
    using t(2-5) date cat
    by (cases t) (simp add: example_filled example_env_def blank_form_def)
  with t(1) have "transactions (handleAddTransaction example_env (fill lunch_edits loaded_state))
      = [\<lparr>t_id = ''id-2'', t_date = ''2024-01-03'', t_amount = Fin 40,
          t_category = ''Food & Dining'', t_description = ''Lunch'', t_type = Expense\<rparr>,
         tx_salary]"
    by (simp add: loaded_state_def)
  with example_loaded b i example_accepts example_add_step u show ?thesis
    by (intro conjI)
qed

section \<open>Reachable collections\<close>

lemma reachable_negative:
  "reachable (handleAddTransaction example_env negative_form_state)"
  unfolding negative_form_state_def
  by (intro reachable.add reachable.edit reachable.start)

lemma negative_added:
  "map t_amount (transactions (handleAddTransaction example_env negative_form_state))
     = [Fin (- 5)]"
  by (simp add: negative_form_state_def handleAddTransaction_def initial_state_def
      blank_form_def new_transaction_def)

text \<open>
  Typing the amount \<open>-5\<close> and a description into the form of the start state and
  adding gives a reachable collection whose transaction has a negative amount.
\<close>

theorem nonnegative_amount_counterexample:
  "reachable (handleAddTransaction example_env negative_form_state)
   \<and> map t_amount (transactions (handleAddTransaction example_env negative_form_state))
     = [Fin (- 5)]
   \<and> \<not> js_nonneg (Fin (- 5))"
  using reachable_negative negative_added by (simp add: js_nonneg_def)

text \<open>
  C9, amended. Every transaction of a collection reached from the empty collection
  through edits of the form, additions and deletions has an amount that is neither
  zero nor NaN; the amount can be negative.
\<close>

theorem reachable_amounts:
  assumes "reachable s"
  shows "list_all (\<lambda>t. \<not> falsy_num (t_amount t)) (transactions s)"
  using assms
proof (induction rule: reachable.induct)
  case (start day)
  show ?case by (simp add: initial_state_def)
next
  case (edit s e)
  then show ?case by (cases e) simp_all
next
  case (add s env)
  then show ?case
    by (auto simp: handleAddTransaction_def new_transaction_def split: option.splits)
next
  case (delete s i)
  then show ?case by (simp add: deleteTransaction_def list_all_iff)
qed

theorem reachable_amounts_witness:
  "reachable (handleAddTransaction example_env negative_form_state)
   \<and> list_all (\<lambda>t. \<not> falsy_num (t_amount t))
       (transactions (handleAddTransaction example_env negative_form_state))"
  using reachable_negative reachable_amounts [OF reachable_negative] by simp

section \<open>Bills\<close>

lemma toggle_twice:
  "(\<lambda>b. if b_id b = i then b\<lparr>b_isPaid := \<not> b_isPaid b\<rparr> else b) \<circ>
   (\<lambda>b. if b_id b = i then b\<lparr>b_isPaid := \<not> b_isPaid b\<rparr> else b) = id"
  by (rule ext) simp

lemma toggle_example:
  "map b_isPaid (bills (toggleBillPaid ''b1'' ((initial_state d)\<lparr>bills := example_bills\<rparr>)))
     = [True, True]"
  by (simp add: toggleBillPaid_def example_bills_def)

text \<open>
  C10. Toggling a bill by id keeps the number and the order of the bills and every
  field of every bill but \<open>isPaid\<close>, which it negates for the bills with that id and
  for no other; the other collections are untouched, and toggling twice with the same
  id gives back the state.
\<close>

theorem toggleBillPaid_only_isPaid:
  "map b_id (bills (toggleBillPaid i s)) = map b_id (bills s)
   \<and> map b_name (bills (toggleBillPaid i s)) = map b_name (bills s)
   \<and> map b_amount (bills (toggleBillPaid i s)) = map b_amount (bills s)
   \<and> map b_dueDate (bills (toggleBillPaid i s)) = map b_dueDate (bills s)
   \<and> map b_category (bills (toggleBillPaid i s)) = map b_category (bills s)
   \<and> map b_isPaid (bills (toggleBillPaid i s))
     = map (\<lambda>b. if b_id b = i then \<not> b_isPaid b else b_isPaid b) (bills s)
   \<and> transactions (toggleBillPaid i s) = transactions s
   \<and> toggleBillPaid i (toggleBillPaid i s) = s"
proof -
  let ?f = "\<lambda>b. if b_id b = i then b\<lparr>b_isPaid := \<not> b_isPaid b\<rparr> else b"
  have fields: "b_id \<circ> ?f = b_id" "b_name \<circ> ?f = b_name" "b_amount \<circ> ?f = b_amount"
    "b_dueDate \<circ> ?f = b_dueDate" "b_category \<circ> ?f = b_category"
    "b_isPaid \<circ> ?f = (\<lambda>b. if b_id b = i then \<not> b_isPaid b else b_isPaid b)"
    by (rule ext, simp)+
  have twice: "map ?f (map ?f (bills s)) = bills s"
    by (simp only: map_map toggle_twice list.map_id)
  show ?thesis
    using twice by (simp add: toggleBillPaid_def fields)
qed

end
